(* ===== verification/Prelude.thy ===== *)
theory Prelude
  imports Main "HOL-Library.Word" "HOL-Library.AList" "HOL-Library.Char_ord"
    "HOL-Library.List_Lexorder"
begin

text \<open>
  Shared vocabulary of the cbauth development.  Go strings are byte sequences, so a Go
  \<open>string\<close> is an Isabelle \<open>string\<close> (a list of 8-bit \<open>char\<close>s); Go's \<open>uint16\<close> and
  \<open>uint64\<close> are \<open>16 word\<close> and \<open>64 word\<close>.  The collections declared here are filled by the
  component theories: \<open>ascii_simps\<close> evaluates the byte classifications of the string
  library, \<open>heap_simps\<close> reads the Go heap after an allocation or an update.
  The lemmas are the generic facts on bytes, words and lists that several components use.
\<close>

type_synonym gostring = string
type_synonym u16 = "16 word"
type_synonym u64 = "64 word"

text \<open>
  A Go \<open>panic\<close> is not an error return: it is kept apart as the value \<open>Panic e\<close> of the
  left summand, so that a returned error and a panic are never confused.  The process
  environment read by \<open>os.Getenv\<close> maps a variable name to its value, the empty string
  when the variable is unset.
\<close>

datatype 'e panic = Panic 'e

type_synonym environ = "gostring \<Rightarrow> gostring"

named_theorems ascii_simps "byte classifications of the Go string library, for evaluation"
named_theorems heap_simps "reading the Go heap after allocations and updates"

definition byte_between :: "nat \<Rightarrow> nat \<Rightarrow> char \<Rightarrow> bool" where
  "byte_between lo hi c \<longleftrightarrow> lo \<le> of_char c \<and> of_char c \<le> hi"

definition ascii_lower :: "char \<Rightarrow> char" where
  "ascii_lower c = (if byte_between 65 90 c then char_of (of_char c + (32::nat)) else c)"

lemma ascii_lower_code [ascii_simps]:
  "ascii_lower c = (if 65 \<le> (of_char c :: nat) \<and> (of_char c :: nat) \<le> 90
                    then char_of (of_char c + (32::nat)) else c)"
  by (simp add: ascii_lower_def byte_between_def)

lemma byte_between_code [ascii_simps]:
  "byte_between lo hi c \<longleftrightarrow> lo \<le> of_char c \<and> of_char c \<le> hi"
  by (simp add: byte_between_def)

lemma of_char_ascii_lower:
  "(of_char (ascii_lower c) :: nat) =
     (if byte_between 65 90 c then of_char c + 32 else of_char c)"
  by (simp add: ascii_lower_def byte_between_def)

lemma ascii_lower_idem [simp]: "ascii_lower (ascii_lower c) = ascii_lower c"
  by (simp add: ascii_lower_def byte_between_def)

lemma ascii_lower_non_upper [simp]: "\<not> byte_between 65 90 c \<Longrightarrow> ascii_lower c = c"
  by (simp add: ascii_lower_def)

text \<open>A 64-bit value below \<open>2^16\<close> survives Go's conversion \<open>uint16(x)\<close>.\<close>

lemma unat_ucast_u16:
  assumes "unat (x::u64) < 2 ^ 16"
  shows "unat (ucast x :: u16) = unat x"
  using assms by (simp add: unsigned_ucast_eq take_bit_nat_eq_self)

lemma ucast_u16_inj:
  assumes "unat (x::u64) < 2 ^ 16" and "unat (y::u64) < 2 ^ 16"
    and "(ucast x :: u16) = ucast y"
  shows "x = y"
  using assms by (metis unat_ucast_u16 word_unat_eq_iff)

text \<open>Go's \<open>cutoff = maxUint64/base + 1\<close> is the least multiple bound above \<open>maxUint64\<close>.\<close>

lemma less_div_Suc_mult: "0 < b \<Longrightarrow> m < (m div b + 1) * (b::nat)"
proof -
  assume b: "0 < b"
  have "m div b * b + m mod b = m" by (rule div_mult_mod_eq)
  moreover have "m mod b < b" using b by simp
  ultimately have "m < m div b * b + b" by linarith
  then show ?thesis by (simp add: distrib_right)
qed

lemma foldl_horner_ge:
  "0 < (base::nat) \<Longrightarrow> n \<le> foldl (\<lambda>acc c. acc * base + f c) n cs"
proof (induction cs arbitrary: n)
  case Nil then show ?case by simp
next
  case (Cons c cs)
  have "n \<le> n * base + f c" using Cons.prems by (cases base) auto
  also have "\<dots> \<le> foldl (\<lambda>acc c. acc * base + f c) (n * base + f c) cs"
    using Cons by blast
  finally show ?case by simp
qed

lemma take_bit_64_pow_minus_1: "bs \<le> 64 \<Longrightarrow> take_bit 64 ((2::int) ^ bs - 1) = 2 ^ bs - 1"
proof -
  assume "bs \<le> 64"
  then have "(2::int) ^ bs \<le> 2 ^ 64" by (rule power_increasing) simp
  then show ?thesis by (simp add: take_bit_int_eq_self)
qed

text \<open>Go's \<open>uint64(1)<<uint(bitSize) - 1\<close>, including \<open>bitSize = 64\<close> where the shift gives 0.\<close>

lemma unat_push_bit_minus_1:
  assumes "bs \<le> 64"
  shows "unat (push_bit bs 1 - 1 :: u64) = 2 ^ bs - 1"
proof -
  have "(push_bit bs 1 - 1 :: u64) = mask bs" by (simp add: mask_eq_exp_minus_1 push_bit_of_1)
  moreover have "unat (mask bs :: u64) = 2 ^ bs - 1"
    using assms by transfer (simp add: mask_eq_exp_minus_1 take_bit_64_pow_minus_1 nat_diff_distrib nat_power_eq)
  ultimately show ?thesis by simp
qed

lemma ucast_of_nat_u64_u16: "(ucast (of_nat n :: u64) :: u16) = of_nat n"
  by transfer (simp add: take_bit_nat_def)

lemma unat_of_nat_small: "n < 2 ^ 64 \<Longrightarrow> unat (of_nat n :: u64) = n"
  by (simp add: unat_of_nat take_bit_nat_eq_self)

text \<open>Updating a map along a list of distinct keys builds the list's map.\<close>

lemma foldl_upd_map_of:
  "distinct (map fst kvs) \<Longrightarrow>
   foldl (\<lambda>m (k, s). m(k \<mapsto> f s)) M kvs = M ++ map_of (map (\<lambda>(k, s). (k, f s)) kvs)"
proof (induction kvs arbitrary: M)
  case Nil then show ?case by simp
next
  case (Cons kv kvs)
  obtain k s where kv: "kv = (k, s)" by fastforce
  let ?R = "map_of (map (\<lambda>(k, s). (k, f s)) kvs)"
  have nk: "k \<notin> dom ?R"
    using Cons.prems kv by (auto simp: dom_map_of_conv_image_fst image_iff)
  have "foldl (\<lambda>m (k, s). m(k \<mapsto> f s)) M (kv # kvs) =
        foldl (\<lambda>m (k, s). m(k \<mapsto> f s)) (M(k \<mapsto> f s)) kvs"
    using kv by (simp only: foldl_Cons prod.case)
  also have "\<dots> = M(k \<mapsto> f s) ++ ?R" by (rule Cons.IH) (use Cons.prems in simp)
  also have "\<dots> = (M ++ ?R)(k \<mapsto> f s)" using nk by (rule map_add_upd_left)
  also have "\<dots> = M ++ map_of (map (\<lambda>(k, s). (k, f s)) (kv # kvs))" using kv by simp
  finally show ?case .
qed

lemma subset_interval_Suc:
  "A \<subseteq> B \<union> {c} \<Longrightarrow> B \<subseteq> {a..<c} \<Longrightarrow> a \<le> (c::nat) \<Longrightarrow> A \<subseteq> {a..<Suc c}"
  by force

lemma distinct_concat_update:
  assumes "distinct (concat (map f xs))" and "i < length xs" and "distinct (f y)"
    and "set (f y) \<subseteq> set (f (xs ! i)) \<union> B" and "B \<inter> set (concat (map f xs)) = {}"
  shows "distinct (concat (map f (xs[i := y])))"
  using assms
proof (induction xs arbitrary: i)
  case Nil then show ?case by simp
next
  case (Cons x xs)
  show ?case
  proof (cases i)
    case 0 then show ?thesis using Cons.prems by auto
  next
    case (Suc j)
    have ih: "distinct (concat (map f (xs[j := y])))" using Cons.IH [of j] Cons.prems Suc by auto
    have up: "set (concat (map f (xs[j := y]))) \<subseteq> set (concat (map f xs)) \<union> set (f y)"
      using set_update_subset_insert [of xs j y] by auto
    have "xs ! j \<in> set xs" using Cons.prems(2) Suc by simp
    then have sub: "set (f (xs ! j)) \<subseteq> set (concat (map f xs))" by auto
    have p4: "set (f y) \<subseteq> set (f (xs ! j)) \<union> B" using Cons.prems(4) Suc by simp
    have dx: "set (f x) \<inter> set (concat (map f xs)) = {}" using Cons.prems(1) by simp
    have bx: "set (f x) \<inter> B = {}" using Cons.prems(5) by auto
    have "set (f x) \<inter> set (concat (map f (xs[j := y]))) = {}"
      using up sub p4 dx bx by blast
    then show ?thesis using ih Cons.prems(1) Suc by simp
  qed
qed

lemma distinct_concat_nth:
  assumes "distinct (concat (map f xs))" and "i < length xs"
  shows "distinct (f (xs ! i)) \<and> (\<forall>j<length xs. j \<noteq> i \<longrightarrow> set (f (xs ! j)) \<inter> set (f (xs ! i)) = {})"
  using assms
proof (induction xs arbitrary: i)
  case Nil then show ?case by simp
next
  case (Cons x xs)
  have d: "distinct (f x)" "distinct (concat (map f xs))" "set (f x) \<inter> set (concat (map f xs)) = {}"
    using Cons.prems(1) by simp_all
  have sub: "\<And>j. j < length xs \<Longrightarrow> set (f (xs ! j)) \<subseteq> set (concat (map f xs))"
    using nth_mem by fastforce
  show ?case
  proof (cases i)
    case 0 then show ?thesis using d sub by (fastforce simp: nth_Cons split: nat.split)
  next
    case (Suc i')
    then have ih: "distinct (f (xs ! i')) \<and> (\<forall>j<length xs. j \<noteq> i' \<longrightarrow> set (f (xs ! j)) \<inter> set (f (xs ! i')) = {})"
      using Cons.IH [OF d(2)] Cons.prems(2) by simp
    have "set (f x) \<inter> set (f (xs ! i')) = {}" using d(3) sub [of i'] Cons.prems(2) Suc by auto
    then show ?thesis using ih Suc by (auto simp: nth_Cons split: nat.split)
  qed
qed

lemma sum_list_update_less:
  "i < length xs \<Longrightarrow> f y < f (xs ! i) \<Longrightarrow> sum_list (map f (xs[i := y])) < sum_list (map (f :: 'a \<Rightarrow> nat) xs)"
proof (induction xs arbitrary: i)
  case Nil then show ?case by simp
next
  case (Cons x xs) then show ?case by (cases i) auto
qed

lemma foldl_snoc_upd:
  "foldl (\<lambda>m (k, s). m(k \<mapsto> g s)) M (xs @ [(k, v)]) = (foldl (\<lambda>m (k, s). m(k \<mapsto> g s)) M xs)(k \<mapsto> g v)"
  by simp

end
