(* ===== verification/GoStrings.thy ===== *)
theory GoStrings
  imports Prelude
begin

unbundle bit_operations_syntax

text \<open>
  The Go standard-library string functions that \<open>src/convenience.go\<close> calls, modelled
  from the Go library's behaviour on byte strings:
  \<^item> \<open>strings.TrimSpace\<close> (\<open>trim_space\<close>): strips leading and trailing white space,
    where white space is an ASCII space byte or the UTF-8 encoding of a Unicode space
    (U+0085, U+00A0, U+1680, U+2000 to U+200A, U+2028, U+2029, U+202F, U+205F, U+3000),
    first on the left (\<open>TrimLeftFunc\<close>) and then on the right (\<open>TrimRightFunc\<close>);
  \<^item> \<open>strings.EqualFold\<close> and \<open>strings.ToLower\<close> (\<open>equal_fold\<close>, \<open>to_lower\<close>): ASCII
    case folding.  The code compares their results only against the literals
    \<open>high\<close>, \<open>medium\<close>, \<open>tlsv1\<close>, \<open>tlsv1.1\<close>, \<open>tlsv1.2\<close>; no non-ASCII rune folds or
    lowers to a letter of these (the only non-ASCII runes with an ASCII simple fold are
    U+212A to \<open>k\<close>, U+017F to \<open>s\<close>, U+0130 to \<open>i\<close>), so for these comparisons the
    ASCII model decides exactly what Go decides;
  \<^item> \<open>strconv.ParseUint(s, base, bitSize)\<close> (\<open>parse_uint\<close>): the base prefix
    (\<open>0b\<close>, \<open>0o\<close>, \<open>0x\<close>, a leading \<open>0\<close> for octal) when \<open>base = 0\<close>, the digit loop on a
    64-bit accumulator with Go's \<open>cutoff\<close> and wrap-around overflow checks
    (\<open>parse_uint_digits\<close>), and the underscore rule (\<open>underscore_ok\<close>).  Errors are
    the values of \<open>num_error\<close>; Go's value returned beside a range error is dropped,
    as no caller reads it.
  \<open>parse_digits_ref\<close> is the same loop on unbounded \<open>nat\<close>s with the single check
  \<open>value > maxVal\<close>: the reference against which the 64-bit loop is proved exact.
\<close>

section \<open>White space, case folding\<close>

definition ascii_space_bytes :: "char list" where
  "ascii_space_bytes = [CHR 0x09, CHR 0x0A, CHR 0x0B, CHR 0x0C, CHR 0x0D, CHR 0x20]"

definition space_seqs :: "gostring list" where
  "space_seqs =
     map (\<lambda>c. [c]) ascii_space_bytes @
     [[CHR 0xC2, CHR 0x85], [CHR 0xC2, CHR 0xA0], [CHR 0xE1, CHR 0x9A, CHR 0x80]] @
     map (\<lambda>b. [CHR 0xE2, CHR 0x80, char_of (b::nat)]) [0x80..<0x8B] @
     [[CHR 0xE2, CHR 0x80, CHR 0xA8], [CHR 0xE2, CHR 0x80, CHR 0xA9],
      [CHR 0xE2, CHR 0x80, CHR 0xAF], [CHR 0xE2, CHR 0x81, CHR 0x9F],
      [CHR 0xE3, CHR 0x80, CHR 0x80]]"

fun trim_left_by :: "gostring list \<Rightarrow> gostring \<Rightarrow> gostring" where
  "trim_left_by ps [] = []"
| "trim_left_by ps (c # cs) =
     (case find (\<lambda>p. p \<noteq> [] \<and> take (length p) (c # cs) = p) ps of
        None \<Rightarrow> c # cs
      | Some p \<Rightarrow> trim_left_by ps (drop (length p - 1) cs))"

definition trim_left_space :: "gostring \<Rightarrow> gostring" where
  "trim_left_space s = trim_left_by space_seqs s"

definition trim_right_space :: "gostring \<Rightarrow> gostring" where
  "trim_right_space s = rev (trim_left_by (map rev space_seqs) (rev s))"

definition trim_space :: "gostring \<Rightarrow> gostring" where
  "trim_space s = trim_right_space (trim_left_space s)"

definition equal_fold :: "gostring \<Rightarrow> gostring \<Rightarrow> bool" where
  "equal_fold s t \<longleftrightarrow> map ascii_lower s = map ascii_lower t"

definition to_lower :: "gostring \<Rightarrow> gostring" where
  "to_lower s = map ascii_lower s"

section \<open>strconv.ParseUint\<close>

datatype num_error = ErrSyntax | ErrRange | ErrBase | ErrBitSize

text \<open>Go's \<open>lower(c)\<close> is \<open>c | ('x' - 'X')\<close> on the byte.\<close>

definition lower_byte :: "char \<Rightarrow> nat" where
  "lower_byte c = of_char c OR 32"

definition digit_val :: "char \<Rightarrow> nat option" where
  "digit_val c =
     (if byte_between 48 57 c then Some (of_char c - 48)
      else if 97 \<le> lower_byte c \<and> lower_byte c \<le> 122 then Some (lower_byte c - 97 + 10)
      else None)"

fun parse_uint_digits ::
  "bool \<Rightarrow> nat \<Rightarrow> u64 \<Rightarrow> u64 \<Rightarrow> gostring \<Rightarrow> u64 \<Rightarrow> bool \<Rightarrow> num_error + (u64 \<times> bool)" where
  "parse_uint_digits base0 base maxv cutoff [] n us = Inr (n, us)"
| "parse_uint_digits base0 base maxv cutoff (c # cs) n us =
     (if c = CHR ''_'' \<and> base0 then parse_uint_digits base0 base maxv cutoff cs n True
      else case digit_val c of
        None \<Rightarrow> Inl ErrSyntax
      | Some d \<Rightarrow>
          if base \<le> d then Inl ErrSyntax
          else if cutoff \<le> n then Inl ErrRange
          else (let n' = n * of_nat base; n1 = n' + of_nat d in
                if n1 < n' \<or> maxv < n1 then Inl ErrRange
                else parse_uint_digits base0 base maxv cutoff cs n1 us))"

fun base_prefix :: "gostring \<Rightarrow> nat \<times> gostring" where
  "base_prefix [] = (10, [])"
| "base_prefix (c # cs) =
     (if c \<noteq> CHR ''0'' then (10, c # cs)
      else (case cs of
              d # e # r \<Rightarrow>
                if lower_byte d = 98 then (2, e # r)
                else if lower_byte d = 111 then (8, e # r)
                else if lower_byte d = 120 then (16, e # r)
                else (8, cs)
            | _ \<Rightarrow> (8, cs)))"

datatype saw = SawStart | SawDigit | SawUnderscore | SawOther

fun underscore_scan :: "bool \<Rightarrow> saw \<Rightarrow> gostring \<Rightarrow> bool" where
  "underscore_scan hex sw [] = (sw \<noteq> SawUnderscore)"
| "underscore_scan hex sw (c # cs) =
     (if byte_between 48 57 c \<or> (hex \<and> 97 \<le> lower_byte c \<and> lower_byte c \<le> 102)
      then underscore_scan hex SawDigit cs
      else if c = CHR ''_'' then (sw = SawDigit \<and> underscore_scan hex SawUnderscore cs)
      else if sw = SawUnderscore then False
      else underscore_scan hex SawOther cs)"

definition underscore_ok :: "gostring \<Rightarrow> bool" where
  "underscore_ok s0 =
     (let s = (case s0 of c # r \<Rightarrow> if c = CHR ''-'' \<or> c = CHR ''+'' then r else s0 | [] \<Rightarrow> [])
      in case s of
           c # d # r \<Rightarrow>
             if c = CHR ''0'' \<and> (lower_byte d = 98 \<or> lower_byte d = 111 \<or> lower_byte d = 120)
             then underscore_scan (lower_byte d = 120) SawDigit r
             else underscore_scan False SawStart s
         | _ \<Rightarrow> underscore_scan False SawStart s)"

definition parse_uint :: "gostring \<Rightarrow> nat \<Rightarrow> nat \<Rightarrow> num_error + u64" where
  "parse_uint s base bit_size =
     (if s = [] then Inl ErrSyntax
      else if \<not> (base = 0 \<or> 2 \<le> base \<and> base \<le> 36) then Inl ErrBase
      else if 64 < bit_size then Inl ErrBitSize
      else
        (let (base', ds) = (if base = 0 then base_prefix s else (base, s));
             bs = (if bit_size = 0 then 64 else bit_size);
             maxv = push_bit bs 1 - 1 :: u64;
             cutoff = - 1 div of_nat base' + 1 :: u64
         in case parse_uint_digits (base = 0) base' maxv cutoff ds 0 False of
              Inl e \<Rightarrow> Inl e
            | Inr (n, us) \<Rightarrow> if us \<and> \<not> underscore_ok s then Inl ErrSyntax else Inr n))"

fun parse_digits_ref ::
  "bool \<Rightarrow> nat \<Rightarrow> nat \<Rightarrow> gostring \<Rightarrow> nat \<Rightarrow> bool \<Rightarrow> num_error + (nat \<times> bool)" where
  "parse_digits_ref base0 base maxv [] n us = Inr (n, us)"
| "parse_digits_ref base0 base maxv (c # cs) n us =
     (if c = CHR ''_'' \<and> base0 then parse_digits_ref base0 base maxv cs n True
      else case digit_val c of
        None \<Rightarrow> Inl ErrSyntax
      | Some d \<Rightarrow>
          if base \<le> d then Inl ErrSyntax
          else if maxv < n * base + d then Inl ErrRange
          else parse_digits_ref base0 base maxv cs (n * base + d) us)"

definition parse_uint_ref :: "gostring \<Rightarrow> nat \<Rightarrow> nat \<Rightarrow> num_error + nat" where
  "parse_uint_ref s base bit_size =
     (if s = [] then Inl ErrSyntax
      else if \<not> (base = 0 \<or> 2 \<le> base \<and> base \<le> 36) then Inl ErrBase
      else if 64 < bit_size then Inl ErrBitSize
      else
        (let (base', ds) = (if base = 0 then base_prefix s else (base, s));
             bs = (if bit_size = 0 then 64 else bit_size)
         in case parse_digits_ref (base = 0) base' (2 ^ bs - 1) ds 0 False of
              Inl e \<Rightarrow> Inl e
            | Inr (n, us) \<Rightarrow> if us \<and> \<not> underscore_ok s then Inl ErrSyntax else Inr n))"

text \<open>A decimal literal in the sense of the spec: digits only, no leading zero.\<close>

definition dec_literal :: "gostring \<Rightarrow> bool" where
  "dec_literal s \<longleftrightarrow>
     (case s of [] \<Rightarrow> False | c # _ \<Rightarrow> c \<noteq> CHR ''0'') \<and> (\<forall>c\<in>set s. byte_between 48 57 c)"

definition dec_value :: "gostring \<Rightarrow> nat" where
  "dec_value s = foldl (\<lambda>acc c. acc * 10 + (of_char c - 48)) 0 s"

text \<open>The value of a string of octal digits.\<close>

definition oct_value :: "gostring \<Rightarrow> nat" where
  "oct_value s = foldl (\<lambda>acc c. acc * 8 + (of_char c - 48)) 0 s"

section \<open>The 64-bit digit loop against the reference\<close>

lemma unat_cutoff:
  assumes "2 \<le> base" "base \<le> 36"
  shows "unat (- 1 div of_nat base + 1 :: u64) = (2 ^ 64 - 1) div base + 1"
proof -
  have b: "unat (of_nat base :: u64) = base" using assms by (simp add: unat_of_nat_small)
  have d: "unat (- 1 div of_nat base :: u64) = (2 ^ 64 - 1) div base"
    using b by (simp add: unat_div unsigned_minus_1_eq_mask mask_eq_exp_minus_1)
  have "(2 ^ 64 - 1) div base + 1 < (2::nat) ^ 64"
    using assms by (simp add: div_le_dividend order_le_less_trans)
  with d show ?thesis by (simp add: unat_add_lem [THEN iffD1])
qed

text \<open>
  One step of Go's loop: \<open>n \<ge> cutoff\<close> and the wrap of \<open>n*base + d\<close> are detected
  exactly when the unbounded value passes \<open>maxVal\<close>.
\<close>

lemma parse_uint_digits_ref:
  assumes "2 \<le> base" "base \<le> 36" "unat n \<le> unat maxv"
    and "cutoff = - 1 div of_nat base + 1"
  shows "parse_uint_digits base0 base maxv cutoff cs n us =
         map_sum id (\<lambda>(v, u). (of_nat v, u)) (parse_digits_ref base0 base (unat maxv) cs (unat n) us)"
  using assms(3)
proof (induction cs arbitrary: n us)
  case Nil
  then show ?case by simp
next
  case (Cons c cs)
  show ?case
  proof (cases "c = CHR ''_''")
    case True
    then show ?thesis using Cons.IH [OF Cons.prems]
      by (cases base0) (simp_all add: digit_val_def lower_byte_def byte_between_def)
  next
    case nu: False
    show ?thesis
    proof (cases "digit_val c")
      case None
      with nu show ?thesis by simp
    next
      case (Some d)
      show ?thesis
      proof (cases "base \<le> d")
        case True
        with nu Some show ?thesis by simp
      next
        case dlt: False
        have ucut: "unat cutoff = (2 ^ 64 - 1) div base + 1"
          using assms(1,2,4) by (simp add: unat_cutoff)
        have b: "unat (of_nat base :: u64) = base" using assms(1,2) by (simp add: unat_of_nat_small)
        have dd: "unat (of_nat d :: u64) = d" using dlt assms(2) by (simp add: unat_of_nat_small)
        have "unat maxv < 2 ^ LENGTH(64)" by (rule unsigned_less)
        then have maxb: "unat maxv \<le> 2 ^ 64 - 1" by simp
        show ?thesis
        proof (cases "cutoff \<le> n")
          case True
          then have "(2 ^ 64 - 1) div base + 1 \<le> unat n" using ucut by (simp add: word_le_nat_alt)
          then have "((2 ^ 64 - 1) div base + 1) * base \<le> unat n * base" by (rule mult_le_mono1)
          moreover have "2 ^ 64 - 1 < ((2 ^ 64 - 1) div base + 1) * base"
            using assms(1) by (intro less_div_Suc_mult) simp
          ultimately have "unat maxv < unat n * base + d" using maxb by linarith
          with True nu Some dlt show ?thesis by simp
        next
          case False
          then have "unat n < (2 ^ 64 - 1) div base + 1" using ucut by (simp add: word_le_nat_alt not_le)
          then have "unat n * base \<le> (2 ^ 64 - 1) div base * base" by simp
          also have "\<dots> \<le> 2 ^ 64 - 1" by (rule div_times_less_eq_dividend)
          finally have "unat n * base \<le> 2 ^ 64 - 1" .
          then have "unat n * unat (of_nat base :: u64) < 2 ^ LENGTH(64)" using b by simp
          then have "unat (n * of_nat base) = unat n * unat (of_nat base :: u64)"
            by (rule unat_mult_lem [THEN iffD1])
          then have m: "unat (n * of_nat base) = unat n * base" using b by simp
          show ?thesis
          proof (cases "unat n * base + d < 2 ^ 64")
            case True
            then have a: "unat (n * of_nat base + of_nat d) = unat n * base + d"
              using m dd by (simp add: unat_add_lem [THEN iffD1])
            then have nl: "\<not> (n * of_nat base + of_nat d < n * of_nat base)"
              using m by (simp add: word_less_nat_alt)
            have ml: "(maxv < n * of_nat base + of_nat d) = (unat maxv < unat n * base + d)"
              using a by (simp add: word_less_nat_alt)
            show ?thesis
            proof (cases "unat maxv < unat n * base + d")
              case True
              with nu Some dlt False nl ml show ?thesis by (simp add: Let_def)
            next
              case nr: False
              then have "unat (n * of_nat base + of_nat d) \<le> unat maxv" using a by simp
              note IH = Cons.IH [OF this, of us]
              from nu Some dlt False nl ml nr IH a show ?thesis by (simp add: Let_def)
            qed
          next
            case ovf: False
            then have "unat (n * of_nat base + of_nat d) = unat n * base + d - 2 ^ 64"
              using m dd by (simp add: unat_plus_if')
            moreover have "d < 2 ^ 64" using dlt assms(2) by simp
            ultimately have "unat (n * of_nat base + of_nat d) < unat (n * of_nat base)"
              using m ovf by linarith
            then have "n * of_nat base + of_nat d < n * of_nat base" by (simp add: word_less_nat_alt)
            moreover have "unat maxv < unat n * base + d" using ovf maxb by simp
            ultimately show ?thesis using nu Some dlt False by (simp add: Let_def)
          qed
        qed
      qed
    qed
  qed
qed

lemma parse_uint_digits_le_maxv:
  "parse_uint_digits base0 base maxv cutoff cs n us = Inr (v, u) \<Longrightarrow> n \<le> maxv \<Longrightarrow> v \<le> maxv"
proof (induction cs arbitrary: n us)
  case Nil then show ?case by simp
next
  case (Cons c cs)
  show ?case
  proof (cases "c = CHR ''_'' \<and> base0")
    case True with Cons show ?thesis by simp
  next
    case False
    with Cons.prems(1) obtain d where "digit_val c = Some d" "\<not> base \<le> d" "\<not> cutoff \<le> n"
      "\<not> maxv < n * of_nat base + of_nat d"
      "parse_uint_digits base0 base maxv cutoff cs (n * of_nat base + of_nat d) us = Inr (v, u)"
      by (auto simp: Let_def split: if_splits option.splits)
    then show ?thesis using Cons.IH by (simp add: not_less)
  qed
qed

lemma base_prefix_base: "fst (base_prefix s) \<in> {2, 8, 10, 16}"
  by (cases s rule: base_prefix.cases) (auto split: list.splits)

lemma parse_uint_bound:
  assumes "parse_uint s base bit_size = Inr x"
  shows "unat x < 2 ^ (if bit_size = 0 then 64 else bit_size)"
proof -
  let ?bs = "if bit_size = 0 then 64 else bit_size"
  obtain base' ds where bp: "(if base = 0 then base_prefix s else (base, s)) = (base', ds)"
    by fastforce
  from assms have bs: "bit_size \<le> 64" by (auto simp: parse_uint_def split: if_splits)
  from assms bp obtain u where
    "parse_uint_digits (base = 0) base' (push_bit ?bs 1 - 1) (- 1 div of_nat base' + 1) ds 0 False
       = Inr (x, u)"
    by (auto simp: parse_uint_def Let_def split: if_splits sum.splits prod.splits)
  then have "x \<le> push_bit ?bs 1 - 1" by (rule parse_uint_digits_le_maxv) simp
  then have "unat x \<le> unat (push_bit ?bs 1 - 1 :: u64)" by (simp only: word_le_nat_alt)
  moreover have "unat (push_bit ?bs 1 - 1 :: u64) = 2 ^ ?bs - 1"
    using bs by (intro unat_push_bit_minus_1) simp
  ultimately have "unat x \<le> 2 ^ ?bs - 1" by simp
  moreover have "(0::nat) < 2 ^ ?bs" by simp
  ultimately show ?thesis by linarith
qed

lemma lower_byte_digit: "byte_between 48 57 c \<Longrightarrow> lower_byte c = of_char c"
proof -
  assume "byte_between 48 57 c"
  then have "of_char c \<in> set [48..<58]" by (simp add: byte_between_def) presburger
  moreover have "\<forall>n\<in>set [48..<58::nat]. n OR 32 = n" by simp
  ultimately show ?thesis by (auto simp: lower_byte_def)
qed

lemma parse_digits_ref_digits_base:
  assumes "\<forall>c\<in>set cs. byte_between 48 57 c \<and> of_char c - 48 < base"
    and "foldl (\<lambda>acc c. acc * base + (of_char c - 48)) n cs \<le> maxv"
  shows "parse_digits_ref base0 base maxv cs n us =
           Inr (foldl (\<lambda>acc c. acc * base + (of_char c - 48)) n cs, us)"
  using assms
proof (induction cs arbitrary: n)
  case Nil then show ?case by simp
next
  case (Cons c cs)
  have dv: "digit_val c = Some (of_char c - 48)" and ne: "c \<noteq> CHR ''_''"
    using Cons.prems(1) by (auto simp: digit_val_def byte_between_def)
  have lt: "of_char c - 48 < base" using Cons.prems(1) by simp
  have "n * base + (of_char c - 48) \<le>
          foldl (\<lambda>acc c. acc * base + (of_char c - 48)) (n * base + (of_char c - 48)) cs"
    using lt by (intro foldl_horner_ge) simp
  then show ?case using Cons dv ne lt by simp
qed

lemma parse_digits_ref_digits:
  assumes "\<forall>c\<in>set cs. byte_between 48 57 c" "10 \<le> base"
    and "foldl (\<lambda>acc c. acc * base + (of_char c - 48)) n cs \<le> maxv"
  shows "parse_digits_ref base0 base maxv cs n us =
           Inr (foldl (\<lambda>acc c. acc * base + (of_char c - 48)) n cs, us)"
  using assms by (intro parse_digits_ref_digits_base) (auto simp: byte_between_def)


lemma parse_uint_decimal:
  assumes "dec_literal s" and "dec_value s < 2 ^ 16"
  shows "parse_uint s 0 16 = Inr (of_nat (dec_value s))"
proof -
  obtain c cs where s: "s = c # cs" and c: "c \<noteq> CHR ''0''" and ds: "\<forall>c\<in>set s. byte_between 48 57 c"
    using assms(1) by (auto simp: dec_literal_def split: list.splits)
  have bp: "base_prefix s = (10, s)" using s c by simp
  have um: "unat (push_bit 16 1 - 1 :: u64) = 2 ^ 16 - 1" by (rule unat_push_bit_minus_1) simp
  have "parse_digits_ref True 10 (2 ^ 16 - 1) s 0 False = Inr (dec_value s, False)"
    using ds assms(2) by (simp add: parse_digits_ref_digits dec_value_def)
  then have "parse_uint_digits True 10 (push_bit 16 1 - 1) (- 1 div of_nat 10 + 1) s 0 False
               = Inr (of_nat (dec_value s), False)"
    using parse_uint_digits_ref [of 10 0 "push_bit 16 1 - 1 :: u64" "- 1 div of_nat 10 + 1" True s False] um
    by simp
  then show ?thesis using s bp by (simp add: parse_uint_def)
qed

lemma parse_uint_eq_ref:
  "parse_uint s base bit_size = map_sum id of_nat (parse_uint_ref s base bit_size)"
proof (cases "s = [] \<or> \<not> (base = 0 \<or> 2 \<le> base \<and> base \<le> 36) \<or> 64 < bit_size")
  case True
  then show ?thesis by (auto simp: parse_uint_def parse_uint_ref_def)
next
  case ok: False
  let ?bs = "if bit_size = 0 then 64 else bit_size"
  obtain base' ds where bp: "(if base = 0 then base_prefix s else (base, s)) = (base', ds)"
    by fastforce
  have b': "2 \<le> base' \<and> base' \<le> 36" using ok bp base_prefix_base [of s]
    by (auto split: if_splits)
  have um: "unat (push_bit ?bs 1 - 1 :: u64) = 2 ^ ?bs - 1"
    using ok by (intro unat_push_bit_minus_1) simp
  have eq: "parse_uint_digits (base = 0) base' (push_bit ?bs 1 - 1) (- 1 div of_nat base' + 1) ds 0 False
      = map_sum id (\<lambda>(v, u). (of_nat v, u)) (parse_digits_ref (base = 0) base' (2 ^ ?bs - 1) ds 0 False)"
    using parse_uint_digits_ref [of base' 0 "push_bit ?bs 1 - 1 :: u64"] b' um by simp
  show ?thesis
    using ok bp eq
    by (auto simp: parse_uint_def parse_uint_ref_def Let_def split: sum.splits prod.splits)
qed

lemma parse_digits_ref_bad_digit:
  assumes "\<forall>c\<in>set cs. byte_between 48 57 c" and "\<exists>c\<in>set cs. base \<le> of_char c - 48"
  shows "\<exists>e. parse_digits_ref base0 base maxv cs n us = Inl e"
  using assms
proof (induction cs arbitrary: n)
  case Nil then show ?case by simp
next
  case (Cons c cs)
  have dv: "digit_val c = Some (of_char c - 48)" and ne: "c \<noteq> CHR ''_''"
    using Cons.prems(1) by (auto simp: digit_val_def byte_between_def)
  show ?case
  proof (cases "base \<le> of_char c - 48")
    case True then show ?thesis using dv ne by simp
  next
    case False
    then have "\<exists>c\<in>set cs. base \<le> of_char c - 48" using Cons.prems(2) by auto
    then show ?thesis using Cons.IH [of "n * base + (of_char c - 48)"] Cons.prems(1) dv ne False by auto
  qed
qed

lemma base_prefix_octal:
  assumes "\<forall>c\<in>set ds. byte_between 48 57 c"
  shows "base_prefix (CHR ''0'' # ds) = (8, ds)"
proof (cases ds)
  case (Cons d r)
  then have "lower_byte d = of_char d" and "byte_between 48 57 d" using assms lower_byte_digit by auto
  then show ?thesis using Cons by (cases r) (auto simp: byte_between_def)
qed simp

lemma parse_uint_octal:
  assumes "\<forall>c\<in>set ds. byte_between 48 55 c" and "oct_value ds < 2 ^ 16"
  shows "parse_uint (CHR ''0'' # ds) 0 16 = Inr (of_nat (oct_value ds))"
proof -
  have dd: "\<forall>c\<in>set ds. byte_between 48 57 c \<and> (of_char c :: nat) - 48 < 8"
    using assms(1) by (auto simp: byte_between_def)
  then have bp: "base_prefix (CHR ''0'' # ds) = (8, ds)" by (intro base_prefix_octal) simp
  have um: "unat (push_bit 16 1 - 1 :: u64) = 2 ^ 16 - 1" by (rule unat_push_bit_minus_1) simp
  have "parse_digits_ref True 8 (2 ^ 16 - 1) ds 0 False = Inr (oct_value ds, False)"
    using dd assms(2) by (simp add: parse_digits_ref_digits_base oct_value_def)
  then have "parse_uint_digits True 8 (push_bit 16 1 - 1) (- 1 div of_nat 8 + 1) ds 0 False
               = Inr (of_nat (oct_value ds), False)"
    using parse_uint_digits_ref [of 8 0 "push_bit 16 1 - 1 :: u64" "- 1 div of_nat 8 + 1" True ds False] um
    by simp
  then show ?thesis using bp by (simp add: parse_uint_def)
qed

lemma parse_uint_octal_bad:
  assumes "\<forall>c\<in>set ds. byte_between 48 57 c" and "\<exists>c\<in>set ds. byte_between 56 57 c"
  shows "\<exists>e. parse_uint (CHR ''0'' # ds) 0 16 = Inl e"
proof -
  obtain c where c: "c \<in> set ds" and b: "byte_between 56 57 c" using assms(2) by blast
  have "8 \<le> (of_char c :: nat) - 48" using b unfolding byte_between_def by linarith
  then have "\<exists>c\<in>set ds. 8 \<le> (of_char c :: nat) - 48" using c by blast
  then obtain e where "parse_digits_ref True 8 (2 ^ 16 - 1) ds 0 False = Inl e"
    using parse_digits_ref_bad_digit [OF assms(1)] by blast
  then show ?thesis using base_prefix_octal [OF assms(1)]
    by (simp add: parse_uint_eq_ref parse_uint_ref_def)
qed

text \<open>The definitions that evaluate a parse or a trim on a literal string by \<open>simp\<close>.\<close>

lemmas go_string_eval = parse_uint_ref_def digit_val_def lower_byte_def byte_between_def
  trim_space_def trim_left_space_def trim_right_space_def space_seqs_def ascii_space_bytes_def
  equal_fold_def ascii_lower_def underscore_ok_def to_lower_def char_of_eq_iff

end
