(* ===== verification/TLSPolicy.thy ===== *)
theory TLSPolicy
  imports GoStrings
begin

text \<open>
  The TLS policy resolver of \<open>src/convenience.go\<close> (lines 120 to 185).
  \<^item> \<open>ciphers_high\<close>, \<open>ciphers_medium\<close>: the two cipher tables, with the IANA values of
    the \<open>crypto/tls\<close> constants the source names;
  \<^item> \<open>tls_config\<close>: the struct \<open>tlsConfig\<close> decoded from JSON;
  \<^item> \<open>get_tls_config\<close>: \<open>getTLSConfig\<close>, reading \<open>CBAUTH_TLS_CONFIG\<close> from the
    environment; \<open>json.Unmarshal\<close> is the parameter \<open>unmarshal\<close> (the decoded struct, or
    the decoder's error, on which the code panics);
  \<^item> \<open>cipher_step\<close> (one iteration of the loop of \<open>CipherSuites\<close>), \<open>cipher_loop\<close> (the
    loop), \<open>cipher_suites_of\<close> (the loop and the empty-result fallback on a decoded
    config), \<open>cipher_suites\<close> (the whole function);
  \<^item> \<open>min_tls_version_of\<close> and \<open>min_tls_version\<close>: \<open>MinTLSVersion\<close>, with the
    \<open>crypto/tls\<close> constants \<open>VersionTLS10/11/12 = 0x0301/0x0302/0x0303\<close>.
  The abstract resolver of the spec (section 4.5) is \<open>resolve_ciphers_spec\<close>: each entry is
  classified once (\<open>classify_group\<close>) as a tier, an explicit identifier read with the
  unbounded reference parser \<open>parse_uint_ref\<close>, or unknown; the groups are expanded
  and concatenated, and an empty result becomes the high tier.
\<close>

section \<open>Data\<close>

definition ciphers_high :: "u16 list" where
  "ciphers_high = [0x002f, 0x0035, 0xc00a, 0xc014, 0xc02f, 0xc02b]"

definition ciphers_medium :: "u16 list" where
  "ciphers_medium = [0xc009, 0xc013, 0xc02f]"

record tls_config =
  MinTLSVersion :: gostring
  Ciphers :: "gostring list"

definition tls_config_zero :: tls_config where
  "tls_config_zero = \<lparr>MinTLSVersion = [], Ciphers = []\<rparr>"

section \<open>Operations\<close>

definition get_tls_config ::
  "(gostring \<Rightarrow> 'e + tls_config) \<Rightarrow> environ \<Rightarrow> 'e panic + tls_config" where
  "get_tls_config unmarshal env =
     (let v = env ''CBAUTH_TLS_CONFIG'' in
      if length (trim_space v) \<noteq> 0
      then (case unmarshal v of Inl err \<Rightarrow> Inl (Panic err) | Inr res \<Rightarrow> Inr res)
      else Inr tls_config_zero)"

definition cipher_step :: "gostring \<Rightarrow> u16 list \<Rightarrow> u16 list" where
  "cipher_step val0 ciphers =
     (let val = trim_space val0 in
      if equal_fold val ''high'' then ciphers @ ciphers_high
      else if equal_fold val ''medium'' then ciphers @ ciphers_medium
      else (case parse_uint val 0 16 of
              Inr cipherId \<Rightarrow> ciphers @ [ucast cipherId]
            | Inl _ \<Rightarrow> ciphers))"

fun cipher_loop :: "gostring list \<Rightarrow> u16 list \<Rightarrow> u16 list" where
  "cipher_loop [] ciphers = ciphers"
| "cipher_loop (val # vals) ciphers = cipher_loop vals (cipher_step val ciphers)"

definition cipher_suites_of :: "tls_config \<Rightarrow> u16 list" where
  "cipher_suites_of config =
     (let ciphers = cipher_loop (Ciphers config) [] in
      if 0 < length ciphers then ciphers else ciphers_high)"

definition cipher_suites ::
  "(gostring \<Rightarrow> 'e + tls_config) \<Rightarrow> environ \<Rightarrow> 'e panic + u16 list" where
  "cipher_suites unmarshal env =
     (case get_tls_config unmarshal env of
        Inl p \<Rightarrow> Inl p
      | Inr config \<Rightarrow> Inr (cipher_suites_of config))"

definition min_tls_version_of :: "tls_config \<Rightarrow> u16" where
  "min_tls_version_of config =
     (let v = to_lower (MinTLSVersion config) in
      if v = ''tlsv1'' then 0x0301
      else if v = ''tlsv1.1'' then 0x0302
      else if v = ''tlsv1.2'' then 0x0303
      else 0x0301)"

definition min_tls_version ::
  "(gostring \<Rightarrow> 'e + tls_config) \<Rightarrow> environ \<Rightarrow> 'e panic + u16" where
  "min_tls_version unmarshal env =
     (case get_tls_config unmarshal env of
        Inl p \<Rightarrow> Inl p
      | Inr config \<Rightarrow> Inr (min_tls_version_of config))"

section \<open>The abstract resolver\<close>

datatype cipher_group = GroupHigh | GroupMedium | GroupId u16 | GroupUnknown

definition classify_group :: "gostring \<Rightarrow> cipher_group" where
  "classify_group g =
     (let v = trim_space g in
      if equal_fold v ''high'' then GroupHigh
      else if equal_fold v ''medium'' then GroupMedium
      else (case parse_uint_ref v 0 16 of Inr n \<Rightarrow> GroupId (of_nat n) | Inl _ \<Rightarrow> GroupUnknown))"

fun expand_group :: "cipher_group \<Rightarrow> u16 list" where
  "expand_group GroupHigh = ciphers_high"
| "expand_group GroupMedium = ciphers_medium"
| "expand_group (GroupId c) = [c]"
| "expand_group GroupUnknown = []"

definition resolve_ciphers_spec :: "gostring list \<Rightarrow> u16 list" where
  "resolve_ciphers_spec gs =
     (let r = concat (map (expand_group \<circ> classify_group) gs) in
      if r = [] then ciphers_high else r)"

section \<open>Helper lemmas\<close>

lemma cipher_step_append: "cipher_step v acc = acc @ cipher_step v []"
  by (simp add: cipher_step_def Let_def split: sum.splits)

lemma cipher_loop_acc: "cipher_loop vs acc = acc @ cipher_loop vs []"
proof (induction vs arbitrary: acc)
  case Nil then show ?case by simp
next
  case (Cons v vs)
  have "cipher_loop (v # vs) acc = cipher_step v acc @ cipher_loop vs []"
    by (simp only: cipher_loop.simps(2) Cons.IH [of "cipher_step v acc"])
  also have "\<dots> = acc @ (cipher_step v [] @ cipher_loop vs [])"
    by (simp only: cipher_step_append [of v acc] append_assoc)
  also have "\<dots> = acc @ cipher_loop (v # vs) []"
    by (simp only: cipher_loop.simps(2) Cons.IH [of "cipher_step v []"])
  finally show ?case .
qed

lemma cipher_loop_concat: "cipher_loop vs [] = concat (map (\<lambda>v. cipher_step v []) vs)"
proof (induction vs)
  case Nil then show ?case by simp
next
  case (Cons v vs)
  then show ?case using cipher_loop_acc [of vs "cipher_step v []"] by simp
qed

lemma cipher_step_classify: "cipher_step v [] = expand_group (classify_group v)"
  by (simp add: cipher_step_def classify_group_def Let_def parse_uint_eq_ref ucast_of_nat_u64_u16
      split: sum.splits)

lemma cipher_step_cases:
  assumes "c \<in> set (cipher_step g [])"
  shows "c \<in> set ciphers_high \<or> c \<in> set ciphers_medium \<or>
         (\<exists>n. parse_uint (trim_space g) 0 16 = Inr n \<and> c = ucast n)"
proof (cases "parse_uint (trim_space g) 0 16")
  case (Inl e)
  with assms show ?thesis by (auto simp: cipher_step_def Let_def split: if_splits)
next
  case (Inr n)
  with assms show ?thesis by (auto simp: cipher_step_def Let_def split: if_splits)
qed

lemma ciphers_high_nonempty [simp]: "ciphers_high \<noteq> []"
  by (simp add: ciphers_high_def)

lemma trim_left_by_no_match:
  "\<forall>p\<in>set ps. p \<noteq> [] \<longrightarrow> hd p \<noteq> c \<Longrightarrow> trim_left_by ps (c # cs) = c # cs"
proof -
  assume h: "\<forall>p\<in>set ps. p \<noteq> [] \<longrightarrow> hd p \<noteq> c"
  have "find (\<lambda>p. p \<noteq> [] \<and> take (length p) (c # cs) = p) ps = None"
  proof (rule find_None_iff [THEN iffD2], intro notI, elim exE conjE)
    fix p assume p: "p \<in> set ps" "p \<noteq> []" "take (length p) (c # cs) = p"
    obtain a p' where pa: "p = a # p'" using p(2) by (meson neq_Nil_conv)
    with p(3) have "a = c" by simp
    with h p(1) pa show False by auto
  qed
  then show ?thesis by simp
qed

lemma digit_not_space_start:
  assumes "byte_between 48 57 c"
  shows "\<forall>p\<in>set space_seqs. p \<noteq> [] \<longrightarrow> hd p \<noteq> c"
    and "\<forall>p\<in>set (map rev space_seqs). p \<noteq> [] \<longrightarrow> hd p \<noteq> c"
  using assms by (auto simp: space_seqs_def ascii_space_bytes_def byte_between_def)

lemma trim_space_digits:
  assumes "s \<noteq> []" "\<forall>c\<in>set s. byte_between 48 57 c"
  shows "trim_space s = s"
proof -
  obtain c cs where s: "s = c # cs" using assms(1) by (cases s) auto
  have "byte_between 48 57 c" using s assms(2) by simp
  then have l: "trim_left_space s = s"
    using s by (simp only: trim_left_space_def trim_left_by_no_match [OF digit_not_space_start(1)])
  obtain d ds where r: "rev s = d # ds" using assms(1) by (cases "rev s") auto
  have "d \<in> set s" using r by (metis list.set_intros(1) set_rev)
  then have "byte_between 48 57 d" using assms(2) by simp
  then have "trim_left_by (map rev space_seqs) (rev s) = rev s"
    using r by (simp only: trim_left_by_no_match [OF digit_not_space_start(2)])
  then show ?thesis using l by (simp add: trim_space_def trim_right_space_def)
qed

lemma equal_fold_digit_letter:
  "byte_between 48 57 c \<Longrightarrow> 97 \<le> (of_char d :: nat) \<Longrightarrow> \<not> equal_fold (c # cs) (d # ds)"
  by (auto simp: equal_fold_def ascii_lower_def byte_between_def)

section \<open>Properties of CipherSuites\<close>

text \<open>C7: \<open>CipherSuites\<close> never returns an empty cipher list, whatever the configuration.\<close>

theorem cipher_suites_nonempty: "cipher_suites_of config \<noteq> []"
  by (simp add: cipher_suites_of_def Let_def)

text \<open>
  C8: the loop of \<open>CipherSuites\<close>, with its 64-bit \<open>ParseUint\<close> and \<open>uint16\<close> conversion,
  computes the abstract resolver of the spec: every entry expanded by its group, in order,
  and the high tier when nothing is left.
\<close>

theorem cipher_suites_refines_spec:
  "cipher_suites_of config = resolve_ciphers_spec (Ciphers config)"
  by (simp add: cipher_suites_of_def resolve_ciphers_spec_def cipher_loop_concat cipher_step_classify
      comp_def Let_def)

text \<open>C9: a cipher list of unrecognised entries only resolves to exactly the high tier.\<close>

theorem cipher_suites_all_unknown:
  assumes "\<forall>g\<in>set (Ciphers config). classify_group g = GroupUnknown"
  shows "cipher_suites_of config = ciphers_high"
  using assms
  by (simp add: cipher_suites_of_def cipher_loop_concat cipher_step_classify Let_def)

text \<open>
  C10: an entry equal to \<open>high\<close> up to ASCII case and surrounding white space puts the whole
  high tier, contiguous and in order, into the result.
\<close>

theorem cipher_suites_high_any_case:
  assumes "g \<in> set (Ciphers config)" and "equal_fold (trim_space g) ''high''"
  shows "\<exists>xs ys. cipher_suites_of config = xs @ ciphers_high @ ys"
proof -
  obtain gs1 gs2 where gs: "Ciphers config = gs1 @ g # gs2"
    using assms(1) by (meson split_list)
  have hi: "cipher_step g [] = ciphers_high" using assms(2) by (simp add: cipher_step_def)
  then have "cipher_loop (Ciphers config) [] =
      cipher_loop gs1 [] @ ciphers_high @ cipher_loop gs2 []"
    using gs by (simp add: cipher_loop_concat)
  moreover have "cipher_loop (Ciphers config) [] \<noteq> []"
    using gs hi by (simp add: cipher_loop_concat)
  ultimately show ?thesis by (simp add: cipher_suites_of_def Let_def) blast
qed

text \<open>
  C11: an entry that is a decimal literal (digits, no leading zero) of value below
  \<open>2^16\<close> appends exactly that value as one cipher identifier.
\<close>

theorem cipher_step_decimal:
  assumes "dec_literal v" and "dec_value v < 2 ^ 16"
  shows "cipher_step v acc = acc @ [of_nat (dec_value v)]"
proof -
  obtain c cs where v: "v = c # cs" and ds: "\<forall>c\<in>set v. byte_between 48 57 c"
    using assms(1) by (auto simp: dec_literal_def split: list.splits)
  have t: "trim_space v = v" using v ds by (intro trim_space_digits) simp_all
  have nh: "\<not> equal_fold v ''high''" and nm: "\<not> equal_fold v ''medium''"
    using v ds by (simp_all add: equal_fold_digit_letter)
  have "(ucast (of_nat (dec_value v) :: u64) :: u16) = of_nat (dec_value v)"
    by (rule ucast_of_nat_u64_u16)
  then show ?thesis using t nh nm parse_uint_decimal [OF assms]
    by (simp add: cipher_step_def)
qed

text \<open>
  C12: every identifier in the result comes from a tier table or from an entry whose
  16-bit parse gave it, and the conversion \<open>uint16(cipherId)\<close> keeps its value exactly.
\<close>

theorem cipher_suites_elements:
  assumes "c \<in> set (cipher_suites_of config)"
  shows "c \<in> set ciphers_high \<or> c \<in> set ciphers_medium \<or>
         (\<exists>g\<in>set (Ciphers config). \<exists>n. parse_uint (trim_space g) 0 16 = Inr n \<and> unat c = unat n)"
proof (cases "c \<in> set (cipher_loop (Ciphers config) [])")
  case False
  with assms show ?thesis by (auto simp: cipher_suites_of_def Let_def split: if_splits)
next
  case True
  then obtain g where g: "g \<in> set (Ciphers config)" and c: "c \<in> set (cipher_step g [])"
    by (auto simp: cipher_loop_concat)
  from c have "c \<in> set ciphers_high \<or> c \<in> set ciphers_medium \<or>
         (\<exists>n. parse_uint (trim_space g) 0 16 = Inr n \<and> c = ucast n)" by (rule cipher_step_cases)
  moreover have "unat (ucast n :: u16) = unat n" if "parse_uint (trim_space g) 0 16 = Inr n" for n
    using parse_uint_bound [OF that] by (simp add: unat_ucast_u16)
  ultimately show ?thesis using g by auto
qed

text \<open>
  The spec's example: \<open>["medium", "999"]\<close> resolves to the medium tier followed by
  the identifier 999.
\<close>

theorem cipher_suites_medium_999:
  "cipher_suites_of \<lparr>MinTLSVersion = [], Ciphers = [''medium'', ''999'']\<rparr> = ciphers_medium @ [999]"
  by code_simp

text \<open>
  C13: entries are read by \<open>ParseUint(val, 0, 16)\<close>, so an entry of decimal digits
  with a leading zero is read in base 8: when its digits are octal and its value fits in
  16 bits it appends its octal value, and when it contains an 8 or a 9 it is rejected and
  contributes nothing, although the spec describes the entries as decimal or hex.
\<close>

theorem cipher_step_leading_zero:
  assumes "ds \<noteq> []" and "\<forall>c\<in>set ds. byte_between 48 57 c"
  shows "((\<forall>c\<in>set ds. byte_between 48 55 c) \<and> oct_value ds < 2 ^ 16 \<longrightarrow>
            cipher_step (CHR ''0'' # ds) acc = acc @ [of_nat (oct_value ds)]) \<and>
         ((\<exists>c\<in>set ds. byte_between 56 57 c) \<longrightarrow> cipher_step (CHR ''0'' # ds) acc = acc)"
proof -
  have dg: "\<forall>c\<in>set (CHR ''0'' # ds). byte_between 48 57 c" using assms(2) by (simp add: byte_between_def)
  have t: "trim_space (CHR ''0'' # ds) = CHR ''0'' # ds" using dg by (intro trim_space_digits) simp_all
  have z: "byte_between 48 57 (CHR ''0'')" by (simp add: byte_between_def)
  have nh: "\<not> equal_fold (CHR ''0'' # ds) ''high''" and nm: "\<not> equal_fold (CHR ''0'' # ds) ''medium''"
    using z by (simp_all add: equal_fold_digit_letter)
  have "(ucast (of_nat (oct_value ds) :: u64) :: u16) = of_nat (oct_value ds)"
    by (rule ucast_of_nat_u64_u16)
  then have o: "cipher_step (CHR ''0'' # ds) acc = acc @ [of_nat (oct_value ds)]"
    if "\<forall>c\<in>set ds. byte_between 48 55 c" "oct_value ds < 2 ^ 16"
    using t nh nm parse_uint_octal [OF that] by (simp add: cipher_step_def)
  have b: "cipher_step (CHR ''0'' # ds) acc = acc" if "\<exists>c\<in>set ds. byte_between 56 57 c"
    using t nh nm parse_uint_octal_bad [OF assms(2) that] by (auto simp: cipher_step_def)
  show ?thesis using o b by blast
qed

section \<open>Properties of MinTLSVersion\<close>

text \<open>
  C14: \<open>MinTLSVersion\<close> gives the TLS 1.0 floor exactly when the lower-cased version string
  is neither \<open>tlsv1.1\<close> nor \<open>tlsv1.2\<close>: unset, unknown (\<open>tlsv1.3\<close>) and untrimmed
  strings all give the weakest floor.
\<close>

theorem min_tls_version_floor_default:
  "min_tls_version_of config = 0x0301 \<longleftrightarrow>
     to_lower (MinTLSVersion config) \<notin> {''tlsv1.1'', ''tlsv1.2''}"
  by (simp add: min_tls_version_of_def Let_def)

text \<open>C15: the TLS 1.2 floor is chosen exactly for \<open>tlsv1.2\<close> in any ASCII case.\<close>

theorem min_tls_version_tls12_iff:
  "min_tls_version_of config = 0x0303 \<longleftrightarrow> to_lower (MinTLSVersion config) = ''tlsv1.2''"
  by (simp add: min_tls_version_of_def Let_def)

text \<open>The floor is always one of TLS 1.0, 1.1, 1.2, and never below TLS 1.0.\<close>

theorem min_tls_version_range:
  "min_tls_version_of config \<in> {0x0301, 0x0302, 0x0303} \<and> 0x0301 \<le> min_tls_version_of config"
  by (simp add: min_tls_version_of_def Let_def)

section \<open>Reading the configuration\<close>

text \<open>
  C17: with \<open>CBAUTH_TLS_CONFIG\<close> unset or blank, the decoder is not consulted and the
  resolvers return the high tier and the TLS 1.0 floor.
\<close>

theorem tls_policy_blank_env:
  assumes "trim_space (env ''CBAUTH_TLS_CONFIG'') = []"
  shows "cipher_suites unmarshal env = Inr ciphers_high \<and> min_tls_version unmarshal env = Inr 0x0301"
  using assms
  by (simp add: cipher_suites_def min_tls_version_def get_tls_config_def tls_config_zero_def
      cipher_suites_of_def min_tls_version_of_def to_lower_def)

text \<open>
  A non-blank configuration that the JSON decoder rejects makes both resolvers panic
  with the decoder's error; neither falls back to a default.
\<close>

theorem tls_policy_malformed_panics:
  assumes "trim_space (env ''CBAUTH_TLS_CONFIG'') \<noteq> []"
    and "unmarshal (env ''CBAUTH_TLS_CONFIG'') = Inl err"
  shows "cipher_suites unmarshal env = Inl (Panic err) \<and> min_tls_version unmarshal env = Inl (Panic err)"
  using assms by (simp add: cipher_suites_def min_tls_version_def get_tls_config_def)

section \<open>Witnesses\<close>

theorem cipher_step_leading_zero_witness:
  "cipher_step ''0100'' [] = [64] \<and> cipher_step ''049'' [] = []"
proof -
  have "cipher_step (CHR ''0'' # ''100'') [] = [] @ [of_nat (oct_value ''100'')]"
    using cipher_step_leading_zero [of "''100''" "[]"] by (simp add: byte_between_def oct_value_def)
  moreover have "cipher_step (CHR ''0'' # ''49'') [] = []"
    using cipher_step_leading_zero [of "''49''" "[]"] by (simp add: byte_between_def)
  ultimately show ?thesis by (simp add: oct_value_def)
qed

theorem cipher_suites_all_unknown_witness:
  "classify_group ''low'' = GroupUnknown \<and> classify_group ''0x'' = GroupUnknown \<and>
   classify_group ''70000'' = GroupUnknown \<and>
   cipher_suites_of \<lparr>MinTLSVersion = [], Ciphers = [''low'', ''0x'', ''70000'']\<rparr> = ciphers_high"
proof -
  have h: "\<forall>g\<in>set (Ciphers \<lparr>MinTLSVersion = [], Ciphers = [''low'', ''0x'', ''70000'']\<rparr>).
      classify_group g = GroupUnknown"
    by (simp add: classify_group_def go_string_eval)
  show ?thesis using h cipher_suites_all_unknown [OF h] by simp
qed

theorem cipher_suites_high_any_case_witness:
  "'' HiGH'' \<in> set (Ciphers \<lparr>MinTLSVersion = [], Ciphers = [''medium'', '' HiGH'']\<rparr>) \<and>
   equal_fold (trim_space '' HiGH'') ''high'' \<and>
   (\<exists>xs ys. cipher_suites_of \<lparr>MinTLSVersion = [], Ciphers = [''medium'', '' HiGH'']\<rparr>
              = xs @ ciphers_high @ ys)"
proof -
  have h1: "'' HiGH'' \<in> set (Ciphers \<lparr>MinTLSVersion = [], Ciphers = [''medium'', '' HiGH'']\<rparr>)"
    by simp
  have h2: "equal_fold (trim_space '' HiGH'') ''high''" by (simp add: go_string_eval)
  show ?thesis using h1 h2 cipher_suites_high_any_case [OF h1 h2] by blast
qed

theorem cipher_step_decimal_witness:
  "dec_literal ''999'' \<and> dec_value ''999'' < 2 ^ 16 \<and>
   cipher_step ''999'' [0xc009] = [0xc009, 999]"
proof -
  have h1: "dec_literal ''999''" by (simp add: dec_literal_def byte_between_def)
  have h2: "dec_value ''999'' < 2 ^ 16" by (simp add: dec_value_def)
  have "dec_value ''999'' = 999" by (simp add: dec_value_def)
  then show ?thesis using h1 h2 cipher_step_decimal [OF h1 h2, of "[0xc009]"] by simp
qed

theorem cipher_suites_elements_witness:
  "999 \<in> set (cipher_suites_of \<lparr>MinTLSVersion = [], Ciphers = [''medium'', ''999'']\<rparr>) \<and>
   (\<exists>g\<in>set [''medium'', ''999'']. \<exists>n. parse_uint (trim_space g) 0 16 = Inr n \<and> unat (999::u16) = unat n)"
proof -
  have h: "999 \<in> set (cipher_suites_of \<lparr>MinTLSVersion = [], Ciphers = [''medium'', ''999'']\<rparr>)"
    by code_simp
  have "(999::u16) \<notin> set ciphers_high \<and> (999::u16) \<notin> set ciphers_medium"
    by (simp add: ciphers_high_def ciphers_medium_def)
  then show ?thesis using h cipher_suites_elements [OF h] by simp
qed

theorem min_tls_version_floor_default_witness:
  "min_tls_version_of \<lparr>MinTLSVersion = '' tlsv1.2'', Ciphers = []\<rparr> = 0x0301 \<and>
   min_tls_version_of \<lparr>MinTLSVersion = ''TLSv1.3'', Ciphers = []\<rparr> = 0x0301"
  using min_tls_version_floor_default [of "\<lparr>MinTLSVersion = '' tlsv1.2'', Ciphers = []\<rparr>"]
    min_tls_version_floor_default [of "\<lparr>MinTLSVersion = ''TLSv1.3'', Ciphers = []\<rparr>"]
  by (simp add: go_string_eval)

theorem min_tls_version_tls12_iff_witness:
  "min_tls_version_of \<lparr>MinTLSVersion = ''TLSv1.2'', Ciphers = []\<rparr> = 0x0303"
  using min_tls_version_tls12_iff [of "\<lparr>MinTLSVersion = ''TLSv1.2'', Ciphers = []\<rparr>"]
  by (simp add: go_string_eval)

theorem tls_policy_blank_env_witness:
  "trim_space ((\<lambda>_. ''  '') ''CBAUTH_TLS_CONFIG'') = [] \<and>
   cipher_suites (\<lambda>_. Inl ''never called'') (\<lambda>_. ''  '') = Inr ciphers_high \<and>
   min_tls_version (\<lambda>_. Inl ''never called'') (\<lambda>_. ''  '') = Inr 0x0301"
proof -
  have h: "trim_space ((\<lambda>_. ''  '') ''CBAUTH_TLS_CONFIG'') = []" by (simp add: go_string_eval)
  show ?thesis
    using h tls_policy_blank_env [OF h, of "\<lambda>_. Inl ''never called''"] by simp
qed

theorem tls_policy_malformed_panics_witness:
  "trim_space ((\<lambda>_. ''{'') ''CBAUTH_TLS_CONFIG'') \<noteq> [] \<and>
   cipher_suites (\<lambda>_. Inl ''unexpected end of JSON input'') (\<lambda>_. ''{'')
     = Inl (Panic ''unexpected end of JSON input'')"
proof -
  have h1: "trim_space ((\<lambda>_. ''{'') ''CBAUTH_TLS_CONFIG'') \<noteq> []" by (simp add: go_string_eval)
  have h2: "(\<lambda>_. Inl ''unexpected end of JSON input'') ((\<lambda>_. ''{'') ''CBAUTH_TLS_CONFIG'')
              = (Inl ''unexpected end of JSON input'' :: char list + tls_config)" by simp
  show ?thesis using h1 tls_policy_malformed_panics [OF h1 h2] by simp
qed

end
