(* ===== verification/GoHeap.thy ===== *)
theory GoHeap
  imports Prelude
begin

text \<open>
  The part of Go's memory that the signing path touches: \<open>http.Header\<close> maps
  (\<open>map[string][]string\<close>) and the backing arrays of their \<open>[]string\<close> values.  A map
  and an array live at an address of the heap; a slice is a descriptor (array address,
  offset, length, capacity) and is copied by value, so two slices may share one array.
  Objects are kept as association lists from addresses, so that a heap is a finite,
  printable value; \<open>h_next\<close> is the allocation counter shared by maps and arrays.
  \<^item> \<open>alloc_array\<close>, \<open>alloc_map\<close>: \<open>make\<close> and composite literals;
  \<^item> \<open>map_store\<close> (\<open>m[k] = v\<close> on a map that exists), \<open>map_assign\<close> (the same on a
    possibly nil map: assigning into a nil map panics);
  \<^item> \<open>array_write\<close>, \<open>slice_store\<close> (\<open>s[i] = v\<close>, with Go's bounds check),
    \<open>slice_append\<close> (\<open>append(s, vs...)\<close>: in place when the capacity suffices, else into a
    fresh array holding exactly the elements; Go may round that capacity up, which only
    enlarges a fresh array no other slice can reach);
  \<^item> \<open>canonical_mime_header_key\<close> and \<open>header_set\<close>: \<open>Header.Set\<close>, which canonicalises
    the key and assigns a fresh one-element slice.
  \<open>header_view\<close> reads a header map as the abstract map from keys to value lists;
  \<open>footprint\<close> is the set of addresses a header map reaches; \<open>heap_wf\<close> is the heap
  invariant (addresses below the counter, distinct keys, slices within their arrays).
\<close>

type_synonym addr = nat

record slice =
  s_arr :: "addr option"
  s_off :: nat
  s_len :: nat
  s_cap :: nat

type_synonym hmap = "(gostring \<times> slice) list"

record heap =
  h_arrays :: "(addr \<times> gostring list) list"
  h_maps :: "(addr \<times> hmap) list"
  h_next :: addr

datatype runtime_error = AssignNilMap | IndexOutOfRange

definition empty_heap :: heap where
  "empty_heap = \<lparr>h_arrays = [], h_maps = [], h_next = 0\<rparr>"

definition slice_values :: "heap \<Rightarrow> slice \<Rightarrow> gostring list" where
  "slice_values h s =
     (case s_arr s of
        None \<Rightarrow> []
      | Some a \<Rightarrow> (case map_of (h_arrays h) a of
                    None \<Rightarrow> []
                  | Some xs \<Rightarrow> take (s_len s) (drop (s_off s) xs)))"

definition alloc_array :: "gostring list \<Rightarrow> heap \<Rightarrow> addr \<times> heap" where
  "alloc_array xs h =
     (h_next h, h\<lparr>h_arrays := AList.update (h_next h) xs (h_arrays h), h_next := Suc (h_next h)\<rparr>)"

definition alloc_map :: "hmap \<Rightarrow> heap \<Rightarrow> addr \<times> heap" where
  "alloc_map kvs h =
     (h_next h, h\<lparr>h_maps := AList.update (h_next h) kvs (h_maps h), h_next := Suc (h_next h)\<rparr>)"

definition map_entries :: "heap \<Rightarrow> addr option \<Rightarrow> hmap" where
  "map_entries h m =
     (case m of
        None \<Rightarrow> []
      | Some a \<Rightarrow> (case map_of (h_maps h) a of None \<Rightarrow> [] | Some kvs \<Rightarrow> kvs))"

definition map_store :: "addr \<Rightarrow> gostring \<Rightarrow> slice \<Rightarrow> heap \<Rightarrow> heap" where
  "map_store a k v h =
     h\<lparr>h_maps := AList.update a (AList.update k v (map_entries h (Some a))) (h_maps h)\<rparr>"

definition map_assign :: "addr option \<Rightarrow> gostring \<Rightarrow> slice \<Rightarrow> heap \<Rightarrow> runtime_error + heap" where
  "map_assign m k v h = (case m of None \<Rightarrow> Inl AssignNilMap | Some a \<Rightarrow> Inr (map_store a k v h))"

definition array_write :: "addr \<Rightarrow> nat \<Rightarrow> gostring list \<Rightarrow> heap \<Rightarrow> heap" where
  "array_write a i vs h =
     (case map_of (h_arrays h) a of
        None \<Rightarrow> h
      | Some xs \<Rightarrow> h\<lparr>h_arrays := AList.update a (take i xs @ vs @ drop (i + length vs) xs) (h_arrays h)\<rparr>)"

definition slice_store :: "slice \<Rightarrow> nat \<Rightarrow> gostring \<Rightarrow> heap \<Rightarrow> runtime_error + heap" where
  "slice_store s i v h =
     (if i < s_len s
      then (case s_arr s of
              None \<Rightarrow> Inl IndexOutOfRange
            | Some a \<Rightarrow> Inr (array_write a (s_off s + i) [v] h))
      else Inl IndexOutOfRange)"

definition slice_append :: "slice \<Rightarrow> gostring list \<Rightarrow> heap \<Rightarrow> slice \<times> heap" where
  "slice_append s vs h =
     (if vs = [] then (s, h)
      else if s_len s + length vs \<le> s_cap s
      then (case s_arr s of
              None \<Rightarrow> (s, h)
            | Some a \<Rightarrow> (s\<lparr>s_len := s_len s + length vs\<rparr>, array_write a (s_off s + s_len s) vs h))
      else (let xs = slice_values h s @ vs; (a, h1) = alloc_array xs h
            in (\<lparr>s_arr = Some a, s_off = 0, s_len = length xs, s_cap = length xs\<rparr>, h1)))"

definition is_token_byte :: "char \<Rightarrow> bool" where
  "is_token_byte c \<longleftrightarrow>
     byte_between 48 57 c \<or> byte_between 65 90 c \<or> byte_between 97 122 c \<or>
     c \<in> set ''!#$%&*+-.^_`|~'' \<or> c = CHR 0x27"

fun canon_key_loop :: "bool \<Rightarrow> gostring \<Rightarrow> gostring" where
  "canon_key_loop upper [] = []"
| "canon_key_loop upper (c # cs) =
     (let c' = (if upper \<and> byte_between 97 122 c then char_of (of_char c - (32::nat))
                else if \<not> upper \<and> byte_between 65 90 c then char_of (of_char c + (32::nat))
                else c)
      in c' # canon_key_loop (c' = CHR ''-'') cs)"

definition canonical_mime_header_key :: "gostring \<Rightarrow> gostring" where
  "canonical_mime_header_key s = (if list_all is_token_byte s then canon_key_loop True s else s)"

text \<open>The slice of a composite literal \<open>[]string{v}\<close> whose array is at \<open>a\<close>.\<close>

definition one_slice :: "addr \<Rightarrow> slice" where
  "one_slice a = \<lparr>s_arr = Some a, s_off = 0, s_len = 1, s_cap = 1\<rparr>"

definition header_set :: "addr option \<Rightarrow> gostring \<Rightarrow> gostring \<Rightarrow> heap \<Rightarrow> runtime_error + heap" where
  "header_set m key value h =
     (let (a, h1) = alloc_array [value] h
      in map_assign m (canonical_mime_header_key key) (one_slice a) h1)"

definition header_view :: "heap \<Rightarrow> addr option \<Rightarrow> gostring \<rightharpoonup> gostring list" where
  "header_view h m = map_of (map (\<lambda>(k, s). (k, slice_values h s)) (map_entries h m))"

definition footprint :: "heap \<Rightarrow> addr option \<Rightarrow> addr set" where
  "footprint h m = set_option m \<union> (\<Union>(k, s)\<in>set (map_entries h m). set_option (s_arr s))"

definition slice_ok :: "heap \<Rightarrow> slice \<Rightarrow> bool" where
  "slice_ok h s =
     (case s_arr s of
        None \<Rightarrow> s_len s = 0 \<and> s_cap s = 0
      | Some a \<Rightarrow> (case map_of (h_arrays h) a of
                    None \<Rightarrow> False
                  | Some xs \<Rightarrow> s_len s \<le> s_cap s \<and> s_off s + s_cap s \<le> length xs))"

definition heap_wf :: "heap \<Rightarrow> bool" where
  "heap_wf h \<longleftrightarrow>
     distinct (map fst (h_arrays h)) \<and> distinct (map fst (h_maps h)) \<and>
     list_all (\<lambda>a. a < h_next h) (map fst (h_arrays h)) \<and>
     list_all (\<lambda>a. a < h_next h) (map fst (h_maps h)) \<and>
     list_all (\<lambda>(a, kvs). distinct (map fst kvs) \<and> list_all (\<lambda>(k, s). slice_ok h s) kvs) (h_maps h)"

definition map_ok :: "heap \<Rightarrow> addr option \<Rightarrow> bool" where
  "map_ok h m = (case m of None \<Rightarrow> True | Some a \<Rightarrow> map_of (h_maps h) a \<noteq> None)"

text \<open>Two heaps agree below an address when every object allocated there is the same.\<close>

definition agree_below :: "addr \<Rightarrow> heap \<Rightarrow> heap \<Rightarrow> bool" where
  "agree_below n h h' \<longleftrightarrow>
     (\<forall>a<n. map_of (h_arrays h') a = map_of (h_arrays h) a \<and> map_of (h_maps h') a = map_of (h_maps h) a)"

lemma list_all_alist:
  "distinct (map fst al) \<Longrightarrow>
   list_all (\<lambda>(a, x). P a x) al \<longleftrightarrow> (\<forall>a x. map_of al a = Some x \<longrightarrow> P a x)"
  by (auto simp: list_all_iff dest: map_of_SomeD intro: map_of_is_SomeI)

lemma list_all_keys:
  "list_all Q (map fst al) \<longleftrightarrow> (\<forall>a x. map_of al a = Some x \<longrightarrow> Q a)"
  by (auto simp: list_all_iff dest: map_of_SomeD intro: weak_map_of_SomeI) (metis fst_conv map_of_SomeD)
  
lemma heap_wf_alt:
  "heap_wf h \<longleftrightarrow>
     distinct (map fst (h_arrays h)) \<and> distinct (map fst (h_maps h)) \<and>
     (\<forall>a xs. map_of (h_arrays h) a = Some xs \<longrightarrow> a < h_next h) \<and>
     (\<forall>a kvs. map_of (h_maps h) a = Some kvs \<longrightarrow>
        a < h_next h \<and> distinct (map fst kvs) \<and> list_all (\<lambda>(k, s). slice_ok h s) kvs)"
proof -
  let ?P = "\<lambda>a kvs. distinct (map fst kvs) \<and> list_all (\<lambda>(k, s). slice_ok h s) kvs"
  have e: "distinct (map fst (h_maps h)) \<Longrightarrow> list_all (\<lambda>(a, kvs). ?P a kvs) (h_maps h) \<longleftrightarrow>
      (\<forall>a kvs. map_of (h_maps h) a = Some kvs \<longrightarrow> ?P a kvs)" by (rule list_all_alist)
  show ?thesis unfolding heap_wf_def list_all_keys using e by blast
qed


lemma heap_wf_arr_lt: "heap_wf h \<Longrightarrow> map_of (h_arrays h) a = Some xs \<Longrightarrow> a < h_next h"
  by (simp add: heap_wf_alt)

lemma heap_wf_map:
  "heap_wf h \<Longrightarrow> map_of (h_maps h) a = Some kvs \<Longrightarrow>
   a < h_next h \<and> distinct (map fst kvs) \<and> list_all (\<lambda>(k, s). slice_ok h s) kvs"
  by (simp add: heap_wf_alt)

lemma slice_ok_arr_lt: "heap_wf h \<Longrightarrow> slice_ok h s \<Longrightarrow> s_arr s = Some a \<Longrightarrow> a < h_next h"
  by (auto simp: slice_ok_def heap_wf_arr_lt split: option.splits)

lemma alloc_array_simps [heap_simps]:
  "fst (alloc_array xs h) = h_next h"
  "map_of (h_arrays (snd (alloc_array xs h))) = (map_of (h_arrays h))(h_next h \<mapsto> xs)"
  "h_maps (snd (alloc_array xs h)) = h_maps h"
  "h_next (snd (alloc_array xs h)) = Suc (h_next h)"
  by (simp_all add: alloc_array_def update_conv')

lemma alloc_map_simps [heap_simps]:
  "fst (alloc_map kvs h) = h_next h"
  "map_of (h_maps (snd (alloc_map kvs h))) = (map_of (h_maps h))(h_next h \<mapsto> kvs)"
  "h_arrays (snd (alloc_map kvs h)) = h_arrays h"
  "h_next (snd (alloc_map kvs h)) = Suc (h_next h)"
  by (simp_all add: alloc_map_def update_conv')

lemma map_store_simps [heap_simps]:
  "map_of (h_maps (map_store a k v h)) = (map_of (h_maps h))(a \<mapsto> AList.update k v (map_entries h (Some a)))"
  "h_arrays (map_store a k v h) = h_arrays h"
  "h_next (map_store a k v h) = h_next h"
  by (simp_all add: map_store_def update_conv')

lemma array_write_simps [heap_simps]:
  "map_of (h_arrays (array_write a i vs h)) =
     (case map_of (h_arrays h) a of None \<Rightarrow> map_of (h_arrays h)
      | Some xs \<Rightarrow> (map_of (h_arrays h))(a \<mapsto> take i xs @ vs @ drop (i + length vs) xs))"
  "h_maps (array_write a i vs h) = h_maps h"
  "h_next (array_write a i vs h) = h_next h"
  by (simp_all add: array_write_def update_conv' split: option.splits)

lemma agree_below_refl [simp]: "agree_below n h h"
  by (simp add: agree_below_def)

lemma agree_below_trans: "agree_below n h1 h2 \<Longrightarrow> agree_below n h2 h3 \<Longrightarrow> agree_below n h1 h3"
  by (simp add: agree_below_def)

lemma agree_below_mono: "m \<le> n \<Longrightarrow> agree_below n h h' \<Longrightarrow> agree_below m h h'"
  by (simp add: agree_below_def)

lemma agree_below_alloc_array: "agree_below (h_next h) h (snd (alloc_array xs h))"
  by (simp add: agree_below_def heap_simps)

lemma agree_below_alloc_map: "agree_below (h_next h) h (snd (alloc_map kvs h))"
  by (simp add: agree_below_def heap_simps)

lemma agree_below_map_store: "n \<le> a \<Longrightarrow> agree_below n h (map_store a k v h)"
  by (simp add: agree_below_def heap_simps)

lemma agree_below_array_write: "n \<le> a \<Longrightarrow> agree_below n h (array_write a i vs h)"
  by (simp add: agree_below_def heap_simps split: option.splits)

lemma slice_frame:
  assumes "\<forall>a. s_arr s = Some a \<longrightarrow> a < n" and "agree_below n h h'"
  shows "slice_values h' s = slice_values h s \<and> slice_ok h' s = slice_ok h s"
  using assms by (auto simp: agree_below_def slice_values_def slice_ok_def split: option.splits)

lemma view_frame:
  assumes "footprint h m \<subseteq> {..<n}" and "agree_below n h h'"
  shows "map_entries h' m = map_entries h m \<and> header_view h' m = header_view h m \<and>
         footprint h' m = footprint h m"
proof -
  have me: "map_entries h' m = map_entries h m"
    using assms by (auto simp: footprint_def map_entries_def agree_below_def split: option.splits)
  have "\<forall>(k, s)\<in>set (map_entries h m). slice_values h' s = slice_values h s"
    using assms(1) slice_frame [OF _ assms(2)] by (fastforce simp: footprint_def)
  then have eq: "map (\<lambda>(k, s). (k, slice_values h' s)) (map_entries h m) =
             map (\<lambda>(k, s). (k, slice_values h s)) (map_entries h m)"
    by (intro map_cong) auto
  have "header_view h' m = header_view h m"
    unfolding header_view_def me eq ..
  moreover have "footprint h' m = footprint h m" by (simp add: footprint_def me)
  ultimately show ?thesis using me by simp
qed

lemma footprint_lt:
  assumes "heap_wf h" and "map_ok h m"
  shows "footprint h m \<subseteq> {..<h_next h}"
proof
  fix a assume a: "a \<in> footprint h m"
  show "a \<in> {..<h_next h}"
  proof (cases m)
    case None with a show ?thesis by (simp add: footprint_def map_entries_def)
  next
    case (Some b)
    with assms(2) obtain kvs where kvs: "map_of (h_maps h) b = Some kvs" by (auto simp: map_ok_def)
    with assms(1) have wf: "b < h_next h" "list_all (\<lambda>(k, s). slice_ok h s) kvs"
      using heap_wf_map by blast+
    from a Some kvs consider "a = b" | k s where "(k, s) \<in> set kvs" "s_arr s = Some a"
      by (auto simp: footprint_def map_entries_def)
    then show ?thesis
    proof cases
      case 1 with wf show ?thesis by simp
    next
      case 2 with wf assms(1) show ?thesis by (auto simp: list_all_iff slice_ok_arr_lt)
    qed
  qed
qed


lemma in_set_update: "x \<in> set (AList.update k v al) \<Longrightarrow> x = (k, v) \<or> x \<in> set al"
  by (induction al) (auto split: if_splits)

lemma slice_ok_agree:
  "heap_wf h \<Longrightarrow> agree_below (h_next h) h h' \<Longrightarrow> slice_ok h s \<Longrightarrow> slice_ok h' s"
  using slice_frame [of s "h_next h" h h'] slice_ok_arr_lt [of h s] by blast

lemma slices_ok_agree:
  "heap_wf h \<Longrightarrow> agree_below (h_next h) h h' \<Longrightarrow> list_all (\<lambda>(k, s). slice_ok h s) kvs \<Longrightarrow>
   list_all (\<lambda>(k, s). slice_ok h' s) kvs"
  by (auto simp: list_all_iff slice_ok_agree)

lemma heap_wf_alloc_array: "heap_wf h \<Longrightarrow> heap_wf (snd (alloc_array xs h))"
proof -
  assume wf: "heap_wf h"
  let ?h' = "snd (alloc_array xs h)"
  have ag: "agree_below (h_next h) h ?h'" by (rule agree_below_alloc_array)
  have "h_next h \<notin> fst ` set (h_arrays h)"
    using wf by (auto simp: heap_wf_def list_all_iff)
  then have d: "distinct (map fst (h_arrays ?h'))"
    using wf by (simp add: alloc_array_def heap_wf_def distinct_update)
  have mp: "map_of (h_maps ?h') = map_of (h_maps h)" by (simp add: heap_simps)
  have "a < h_next ?h' \<and> distinct (map fst kvs) \<and> list_all (\<lambda>(k, s). slice_ok ?h' s) kvs"
    if m: "map_of (h_maps ?h') a = Some kvs" for a kvs
  proof -
    from m have m': "map_of (h_maps h) a = Some kvs" by (simp add: mp)
    from heap_wf_map [OF wf m'] have w: "a < h_next h" "distinct (map fst kvs)"
      "list_all (\<lambda>(k, s). slice_ok h s) kvs" by auto
    from slices_ok_agree [OF wf ag w(3)] w show ?thesis by (simp add: heap_simps)
  qed
  moreover have "a < h_next ?h'" if "map_of (h_arrays ?h') a = Some ys" for a ys
    using that heap_wf_arr_lt [OF wf, of a] by (auto simp: heap_simps split: if_splits)
  moreover have "distinct (map fst (h_maps ?h'))" using wf by (simp add: heap_wf_def heap_simps)
  ultimately show ?thesis using d unfolding heap_wf_alt by blast
qed

lemma heap_wf_alloc_map:
  "heap_wf h \<Longrightarrow> distinct (map fst kvs) \<Longrightarrow> list_all (\<lambda>(k, s). slice_ok h s) kvs \<Longrightarrow>
   heap_wf (snd (alloc_map kvs h))"
proof -
  assume wf: "heap_wf h" and dk: "distinct (map fst kvs)" and ok: "list_all (\<lambda>(k, s). slice_ok h s) kvs"
  let ?h' = "snd (alloc_map kvs h)"
  have ag: "agree_below (h_next h) h ?h'" by (rule agree_below_alloc_map)
  have "h_next h \<notin> fst ` set (h_maps h)"
    using wf by (auto simp: heap_wf_def list_all_iff)
  then have d: "distinct (map fst (h_maps ?h'))"
    using wf by (simp add: alloc_map_def heap_wf_def distinct_update)
  have sa: "slice_ok ?h' s = slice_ok h s" for s
    by (simp add: slice_ok_def heap_simps split: option.split)
  have "b < h_next ?h' \<and> distinct (map fst ys) \<and> list_all (\<lambda>(k, s). slice_ok ?h' s) ys"
    if "map_of (h_maps ?h') b = Some ys" for b ys
  proof (cases "b = h_next h")
    case True
    with that have "ys = kvs" by (simp add: heap_simps)
    then show ?thesis using dk ok True by (simp add: sa heap_simps)
  next
    case False with that heap_wf_map [OF wf, of b ys] show ?thesis by (simp add: heap_simps sa)
  qed
  moreover have "b < h_next ?h'" if "map_of (h_arrays ?h') b = Some ys" for b ys
    using that heap_wf_arr_lt [OF wf, of b] by (simp add: heap_simps)
  moreover have "distinct (map fst (h_arrays ?h'))" using wf by (simp add: heap_wf_def heap_simps)
  ultimately show ?thesis using d unfolding heap_wf_alt by blast
qed

lemma heap_wf_map_store:
  assumes wf: "heap_wf h" and a: "map_of (h_maps h) a \<noteq> None" and v: "slice_ok h v"
  shows "heap_wf (map_store a k v h)"
proof -
  let ?h' = "map_store a k v h"
  obtain kvs where kvs: "map_of (h_maps h) a = Some kvs" using a by auto
  have sa: "slice_ok ?h' s = slice_ok h s" for s by (simp add: slice_ok_def heap_simps split: option.split)
  have "a \<in> fst ` set (h_maps h)" using kvs by (metis domI dom_map_of_conv_image_fst)
  then have d: "distinct (map fst (h_maps ?h'))"
    using wf by (simp add: map_store_def heap_wf_def distinct_update)
  have e: "map_entries h (Some a) = kvs" using kvs by (simp add: map_entries_def)
  have "a < h_next h \<and> distinct (map fst kvs) \<and> list_all (\<lambda>(k, s). slice_ok h s) kvs"
    using heap_wf_map [OF wf kvs] .
  then have new: "a < h_next h \<and> distinct (map fst (AList.update k v kvs)) \<and>
                  list_all (\<lambda>(k, s). slice_ok h s) (AList.update k v kvs)"
    using v by (auto simp: distinct_update list_all_iff dest: in_set_update)
  have "b < h_next ?h' \<and> distinct (map fst ys) \<and> list_all (\<lambda>(k, s). slice_ok ?h' s) ys"
    if "map_of (h_maps ?h') b = Some ys" for b ys
  proof (cases "b = a")
    case True
    with that have "ys = AList.update k v kvs" by (simp add: heap_simps e)
    then show ?thesis using new True by (simp add: sa heap_simps)
  next
    case False with that heap_wf_map [OF wf, of b ys] show ?thesis by (simp add: heap_simps sa)
  qed
  moreover have "b < h_next ?h'" if "map_of (h_arrays ?h') b = Some ys" for b ys
    using that heap_wf_arr_lt [OF wf, of b] by (simp add: heap_simps)
  moreover have "distinct (map fst (h_arrays ?h'))" using wf by (simp add: heap_wf_def heap_simps)
  ultimately show ?thesis using d unfolding heap_wf_alt by blast
qed


lemma slice_ok_lengths:
  assumes "\<forall>b. map_option length (map_of (h_arrays h') b) = map_option length (map_of (h_arrays h) b)"
  shows "slice_ok h' s = slice_ok h s"
proof (cases "s_arr s")
  case None then show ?thesis by (simp add: slice_ok_def)
next
  case (Some b)
  have "map_option length (map_of (h_arrays h') b) = map_option length (map_of (h_arrays h) b)"
    using assms by blast
  then show ?thesis
    by (cases "map_of (h_arrays h) b"; cases "map_of (h_arrays h') b") (simp_all add: slice_ok_def Some)
qed

lemma heap_wf_array_write:
  assumes wf: "heap_wf h" and xs: "map_of (h_arrays h) a = Some xs"
    and len: "i + length vs \<le> length xs"
  shows "heap_wf (array_write a i vs h)"
proof -
  let ?h' = "array_write a i vs h"
  have "\<forall>b. map_option length (map_of (h_arrays ?h') b) = map_option length (map_of (h_arrays h) b)"
    using xs len by (simp add: heap_simps)
  then have sa: "slice_ok ?h' s = slice_ok h s" for s by (rule slice_ok_lengths)
  have "a \<in> fst ` set (h_arrays h)" using xs by (metis domI dom_map_of_conv_image_fst)
  then have d: "distinct (map fst (h_arrays ?h'))"
    using wf xs by (simp add: array_write_def heap_wf_def distinct_update)
  have "b < h_next ?h' \<and> distinct (map fst ys) \<and> list_all (\<lambda>(k, s). slice_ok ?h' s) ys"
    if "map_of (h_maps ?h') b = Some ys" for b ys
    using that heap_wf_map [OF wf, of b ys] by (simp add: heap_simps sa)
  moreover have "b < h_next ?h'" if "map_of (h_arrays ?h') b = Some ys" for b ys
    using that heap_wf_arr_lt [OF wf, of b] heap_wf_arr_lt [OF wf xs]
    by (auto simp: heap_simps xs split: if_splits)
  moreover have "distinct (map fst (h_maps ?h'))" using wf by (simp add: heap_wf_def heap_simps)
  ultimately show ?thesis using d unfolding heap_wf_alt by blast
qed
lemma header_view_alt:
  "header_view h m k = map_option (slice_values h) (map_of (map_entries h m) k)"
  by (simp add: header_view_def map_of_map [of "\<lambda>s. slice_values h s", simplified case_prod_beta] comp_def)

lemma map_entries_store [heap_simps]:
  "map_entries (map_store a k v h) m =
     (if m = Some a then AList.update k v (map_entries h (Some a)) else map_entries h m)"
  by (simp add: map_entries_def heap_simps split: option.split)

lemma slice_values_store [heap_simps]: "slice_values (map_store a k v h) = slice_values h"
  by (rule ext) (simp add: slice_values_def heap_simps split: option.split)

lemma header_view_store:
  "header_view (map_store a k v h) (Some a) = (header_view h (Some a))(k \<mapsto> slice_values h v)"
  by (rule ext) (simp add: header_view_alt heap_simps update_conv')

lemma header_view_store_other:
  "m \<noteq> Some a \<Longrightarrow> header_view (map_store a k v h) m = header_view h m"
  by (rule ext) (simp add: header_view_alt heap_simps)

lemma map_ok_alloc_array [heap_simps]: "map_ok (snd (alloc_array xs h)) m = map_ok h m"
  by (simp add: map_ok_def heap_simps split: option.split)

lemma map_ok_None [simp]: "map_ok h None"
  by (simp add: map_ok_def)

lemma map_ok_store: "map_ok h m \<Longrightarrow> map_ok (map_store a k v h) m"
  by (cases m) (simp_all add: map_ok_def heap_simps)

lemma header_set_nil: "header_set None key value h = Inl AssignNilMap"
  by (simp add: header_set_def map_assign_def split: prod.split)

lemma header_set_Some:
  "header_set (Some a) key value h =
     Inr (map_store a (canonical_mime_header_key key) (one_slice (h_next h)) (snd (alloc_array [value] h)))"
  by (simp add: header_set_def map_assign_def alloc_array_def)

lemma header_set_effect:
  assumes wf: "heap_wf h" and ok: "map_ok h (Some a)"
    and hs: "header_set (Some a) key value h = Inr h'"
  shows "heap_wf h' \<and> map_ok h' (Some a) \<and> h_next h' = Suc (h_next h) \<and>
         header_view h' (Some a) = (header_view h (Some a))(canonical_mime_header_key key \<mapsto> [value]) \<and>
         footprint h' (Some a) \<subseteq> footprint h (Some a) \<union> {h_next h} \<and>
         agree_below (min a (h_next h)) h h'"
proof -
  let ?h1 = "snd (alloc_array [value] h)"
  have h': "h' = map_store a (canonical_mime_header_key key) (one_slice (h_next h)) ?h1"
    using hs by (simp add: header_set_Some)
  have wf1: "heap_wf ?h1" using wf by (rule heap_wf_alloc_array)
  have ag1: "agree_below (h_next h) h ?h1" by (rule agree_below_alloc_array)
  have fp: "footprint h (Some a) \<subseteq> {..<h_next h}" using wf ok by (rule footprint_lt)
  have fr: "map_entries ?h1 (Some a) = map_entries h (Some a) \<and>
            header_view ?h1 (Some a) = header_view h (Some a) \<and>
            footprint ?h1 (Some a) = footprint h (Some a)"
    using view_frame [OF fp ag1] .
  have so: "slice_ok ?h1 (one_slice (h_next h))" by (simp add: slice_ok_def one_slice_def heap_simps)
  have sv: "slice_values ?h1 (one_slice (h_next h)) = [value]"
    by (simp add: slice_values_def one_slice_def heap_simps)
  have ok1: "map_of (h_maps ?h1) a \<noteq> None" using ok by (simp add: map_ok_def heap_simps)
  have "heap_wf h'" using heap_wf_map_store [OF wf1 ok1 so] h' by simp
  moreover have "map_ok h' (Some a)" using ok h' by (simp add: map_ok_def heap_simps)
  moreover have "h_next h' = Suc (h_next h)" using h' by (simp add: heap_simps)
  moreover have "header_view h' (Some a) = (header_view h (Some a))(canonical_mime_header_key key \<mapsto> [value])"
    using h' fr sv by (simp add: header_view_store)
  moreover have "footprint h' (Some a) \<subseteq> footprint h (Some a) \<union> {h_next h}"
    using h' fr by (auto simp: footprint_def heap_simps one_slice_def dest: in_set_update)
  moreover have "agree_below (min a (h_next h)) h h'"
    using h' agree_below_trans [OF agree_below_mono [OF _ ag1] agree_below_map_store] by simp
  ultimately show ?thesis by blast
qed

lemma footprint_store:
  "footprint (map_store a k v h) (Some a) \<subseteq> footprint h (Some a) \<union> set_option (s_arr v)"
  by (auto simp: footprint_def heap_simps dest: in_set_update)

lemma fresh_slice_alloc:
  "slice_ok (snd (alloc_array xs h)) \<lparr>s_arr = Some (h_next h), s_off = 0, s_len = length xs, s_cap = length xs\<rparr> \<and>
   slice_values (snd (alloc_array xs h)) \<lparr>s_arr = Some (h_next h), s_off = 0, s_len = length xs, s_cap = length xs\<rparr> = xs"
  by (simp add: slice_ok_def slice_values_def heap_simps)

lemma slice_append_fresh:
  "vs \<noteq> [] \<Longrightarrow> \<not> s_len s + length vs \<le> s_cap s \<Longrightarrow>
   slice_append s vs h =
     (\<lparr>s_arr = Some (h_next h), s_off = 0, s_len = length (slice_values h s @ vs),
       s_cap = length (slice_values h s @ vs)\<rparr>, snd (alloc_array (slice_values h s @ vs) h))"
  by (simp add: slice_append_def alloc_array_def Let_def)

lemma slice_append_next: "slice_append s vs h = (s', h') \<Longrightarrow> h_next h \<le> h_next h'"
  by (auto simp: slice_append_def alloc_array_def heap_simps Let_def split: if_split_asm option.split_asm)

lemma slice_append_arr:
  "slice_append s vs h = (s', h') \<Longrightarrow> set_option (s_arr s') \<subseteq> set_option (s_arr s) \<union> {h_next h..<h_next h'}"
  by (auto simp: slice_append_def alloc_array_def Let_def split: if_split_asm option.split_asm)

lemma agree_below_slice_append:
  assumes "slice_append s vs h = (s', h')" and "\<forall>a. s_arr s = Some a \<longrightarrow> n \<le> a" and "n \<le> h_next h"
  shows "agree_below n h h'"
proof (cases "vs \<noteq> [] \<and> \<not> s_len s + length vs \<le> s_cap s")
  case True
  then have "h' = snd (alloc_array (slice_values h s @ vs) h)" using assms(1) by (simp add: slice_append_fresh)
  then show ?thesis using agree_below_mono [OF assms(3) agree_below_alloc_array] by simp
next
  case False then show ?thesis
    using assms by (auto simp: slice_append_def agree_below_array_write split: option.split_asm if_split_asm)
qed

lemma agree_below_slice_store:
  "slice_store s i v h = Inr h' \<Longrightarrow> \<forall>a. s_arr s = Some a \<longrightarrow> n \<le> a \<Longrightarrow> agree_below n h h'"
  by (auto simp: slice_store_def agree_below_array_write split: if_splits option.splits)

lemma take_drop_splice:
  assumes "off + len + length vs \<le> length xs"
  shows "take (len + length vs) (drop off (take (off + len) xs @ vs @ drop (off + len + length vs) xs)) =
         take len (drop off xs) @ vs"
proof -
  have "drop off (take (off + len) xs) = take len (drop off xs)" by (simp add: drop_take)
  moreover have "length (take len (drop off xs)) = len" using assms by simp
  moreover have "length (take (off + len) xs) = off + len" using assms by simp
  ultimately show ?thesis by simp
qed

lemma slice_append_in_place:
  assumes wf: "heap_wf h" and ok: "slice_ok h s" and s: "s_arr s = Some a"
    and fits: "s_len s + length vs \<le> s_cap s"
  shows "heap_wf (array_write a (s_off s + s_len s) vs h) \<and>
         slice_ok (array_write a (s_off s + s_len s) vs h) (s\<lparr>s_len := s_len s + length vs\<rparr>) \<and>
         slice_values (array_write a (s_off s + s_len s) vs h) (s\<lparr>s_len := s_len s + length vs\<rparr>) =
           slice_values h s @ vs"
proof -
  obtain xs where xs: "map_of (h_arrays h) a = Some xs" and cap: "s_off s + s_cap s \<le> length xs"
    using ok s by (auto simp: slice_ok_def split: option.splits)
  have len: "s_off s + s_len s + length vs \<le> length xs" using fits cap by linarith
  have "heap_wf (array_write a (s_off s + s_len s) vs h)" using heap_wf_array_write [OF wf xs len] .
  moreover have "slice_ok (array_write a (s_off s + s_len s) vs h) (s\<lparr>s_len := s_len s + length vs\<rparr>)"
    using xs s fits cap len by (simp add: slice_ok_def heap_simps)
  moreover have "slice_values (array_write a (s_off s + s_len s) vs h) (s\<lparr>s_len := s_len s + length vs\<rparr>) =
           slice_values h s @ vs"
    using xs s len by (simp add: slice_values_def heap_simps take_drop_splice drop_take)
  ultimately show ?thesis by blast
qed

lemma slice_append_effect:
  assumes wf: "heap_wf h" and ok: "slice_ok h s" and ap: "slice_append s vs h = (s', h')"
  shows "heap_wf h' \<and> slice_ok h' s' \<and> slice_values h' s' = slice_values h s @ vs"
proof (cases "vs = []")
  case True then show ?thesis using ap wf ok by (simp add: slice_append_def)
next
  case ne: False
  show ?thesis
  proof (cases "s_len s + length vs \<le> s_cap s")
    case fits: True
    obtain a where s: "s_arr s = Some a"
      using ok fits ne by (cases "s_arr s") (auto simp: slice_ok_def)
    then show ?thesis using slice_append_in_place [OF wf ok s fits] ap ne fits by (simp add: slice_append_def)
  next
    case False
    then have "s' = \<lparr>s_arr = Some (h_next h), s_off = 0, s_len = length (slice_values h s @ vs),
                       s_cap = length (slice_values h s @ vs)\<rparr>"
          and "h' = snd (alloc_array (slice_values h s @ vs) h)"
      using ap ne by (simp_all add: slice_append_fresh)
    then show ?thesis
      using fresh_slice_alloc [of "slice_values h s @ vs" h] heap_wf_alloc_array [OF wf] by simp
  qed
qed

lemma footprint_store_other:
  "m \<noteq> Some a \<Longrightarrow> footprint (map_store a k v h) m = footprint h m"
  by (simp add: footprint_def heap_simps)

lemma map_ok_agree:
  "heap_wf h \<Longrightarrow> map_ok h m \<Longrightarrow> agree_below (h_next h) h h' \<Longrightarrow> map_ok h' m"
  by (auto simp: map_ok_def agree_below_def dest: heap_wf_map split: option.splits)

end
