(* ===== verification/TLSAliasing.thy ===== *)
theory TLSAliasing
  imports TLSPolicy GoHeap
begin

text \<open>
  \<open>CipherSuites\<close> (lines 151 to 170) with the package variable \<open>ciphersHigh\<close> (lines 120
  to 126) as state.  \<open>TLSPolicy\<close> reads the table as the constant \<open>ciphers_high\<close>; a Go
  slice variable is a descriptor of a mutable backing array, and the function returns the
  variable itself when no entry is usable, so a caller holding the result can write the
  table.  Here \<open>tls_globals\<close> holds the contents of that array; the returned slice is
  either a fresh array (\<open>FreshSlice\<close>: \<open>append\<close> to the nil slice \<open>ciphers\<close> always
  allocates) or the table itself (\<open>HighTable\<close>); \<open>cipher_slice_store\<close> is the caller's
  \<open>s[i] = v\<close> on the result, with Go's index check.
\<close>

record tls_globals =
  g_high :: "u16 list"

definition init_globals :: tls_globals where
  "init_globals = \<lparr>g_high = ciphers_high\<rparr>"

datatype cipher_slice = FreshSlice "u16 list" | HighTable

definition cipher_step_st :: "tls_globals \<Rightarrow> gostring \<Rightarrow> u16 list \<Rightarrow> u16 list" where
  "cipher_step_st g val0 ciphers =
     (if equal_fold (trim_space val0) ''high'' then ciphers @ g_high g else cipher_step val0 ciphers)"

fun cipher_loop_st :: "tls_globals \<Rightarrow> gostring list \<Rightarrow> u16 list \<Rightarrow> u16 list" where
  "cipher_loop_st g [] ciphers = ciphers"
| "cipher_loop_st g (val # vals) ciphers = cipher_loop_st g vals (cipher_step_st g val ciphers)"

definition cipher_suites_st :: "tls_globals \<Rightarrow> tls_config \<Rightarrow> cipher_slice" where
  "cipher_suites_st g config =
     (let ciphers = cipher_loop_st g (Ciphers config) [] in
      if 0 < length ciphers then FreshSlice ciphers else HighTable)"

definition cipher_suites_env ::
  "(gostring \<Rightarrow> 'e + tls_config) \<Rightarrow> environ \<Rightarrow> tls_globals \<Rightarrow> 'e panic + cipher_slice" where
  "cipher_suites_env unmarshal env g =
     (case get_tls_config unmarshal env of
        Inl p \<Rightarrow> Inl p
      | Inr config \<Rightarrow> Inr (cipher_suites_st g config))"

fun cipher_values :: "tls_globals \<Rightarrow> cipher_slice \<Rightarrow> u16 list" where
  "cipher_values g (FreshSlice xs) = xs"
| "cipher_values g HighTable = g_high g"

fun cipher_slice_store ::
  "cipher_slice \<Rightarrow> nat \<Rightarrow> u16 \<Rightarrow> tls_globals \<Rightarrow> runtime_error panic + (cipher_slice \<times> tls_globals)" where
  "cipher_slice_store (FreshSlice xs) i v g =
     (if i < length xs then Inr (FreshSlice (xs[i := v]), g) else Inl (Panic IndexOutOfRange))"
| "cipher_slice_store HighTable i v g =
     (if i < length (g_high g) then Inr (HighTable, g\<lparr>g_high := (g_high g)[i := v]\<rparr>)
      else Inl (Panic IndexOutOfRange))"

lemma g_high_init [simp]: "g_high init_globals = ciphers_high"
  by (simp add: init_globals_def)

lemma cipher_step_st_init: "cipher_step_st init_globals = cipher_step"
  by (rule ext)+ (simp add: cipher_step_st_def cipher_step_def Let_def)

lemma cipher_loop_st_init: "cipher_loop_st init_globals vs acc = cipher_loop vs acc"
  by (induction vs arbitrary: acc) (simp_all add: cipher_step_st_init)

lemma cipher_step_st_append: "cipher_step_st g v acc = acc @ cipher_step_st g v []"
  by (simp add: cipher_step_st_def cipher_step_append [of v acc])

lemma cipher_loop_st_append: "cipher_loop_st g vs acc = acc @ cipher_loop_st g vs []"
proof (induction vs arbitrary: acc)
  case Nil then show ?case by simp
next
  case (Cons v vs)
  show ?case using Cons.IH [of "cipher_step_st g v acc"] Cons.IH [of "cipher_step_st g v []"]
    by (simp add: cipher_step_st_append [of g v acc])
qed

text \<open>
  A configuration with no usable entry names no \<open>"high"\<close> entry while the table is
  non-empty, so it has no usable entry whatever the table holds.
\<close>

lemma cipher_loop_st_empty:
  "cipher_loop_st g vs [] = [] \<Longrightarrow> g_high g \<noteq> [] \<Longrightarrow> cipher_loop_st g' vs [] = []"
proof (induction vs)
  case Nil then show ?case by simp
next
  case (Cons v vs)
  have "cipher_step_st g v [] = [] \<and> cipher_loop_st g vs [] = []"
    using Cons.prems(1) cipher_loop_st_append [of g vs "cipher_step_st g v []"] by simp
  moreover have "cipher_step_st g' v [] = cipher_step_st g v []"
    using calculation Cons.prems(2) by (simp add: cipher_step_st_def split: if_splits)
  ultimately show ?case using Cons.IH Cons.prems(2) cipher_loop_st_append [of g' vs "cipher_step_st g' v []"] by simp
qed

text \<open>With the table as initialised, the stateful function returns what \<open>TLSPolicy\<close> says.\<close>

lemma cipher_suites_st_refines:
  "cipher_values init_globals (cipher_suites_st init_globals config) = cipher_suites_of config"
  by (simp add: cipher_suites_st_def cipher_suites_of_def cipher_loop_st_init Let_def)

text \<open>When some entry is usable, the returned slice is private to the caller.\<close>

lemma cipher_suites_fresh_private:
  assumes "cipher_loop_st g (Ciphers config) [] \<noteq> []"
    and "cipher_slice_store (cipher_suites_st g config) i v g = Inr (s, g')"
  shows "g' = g"
  using assms by (auto simp: cipher_suites_st_def Let_def split: if_splits)

text \<open>
  C28: When no cipher entry is usable, \<open>CipherSuites\<close> returns the package table
  \<open>ciphersHigh\<close> itself: a caller's in-range write \<open>s[i] = v\<close> through the result is a
  write to the table, and the next call with the same configuration returns the altered
  table.
\<close>

theorem cipher_suites_fallback_aliases:
  assumes none: "cipher_loop_st g (Ciphers config) [] = []" and i: "i < length (g_high g)"
  shows "cipher_slice_store (cipher_suites_st g config) i v g = Inr (HighTable, g\<lparr>g_high := (g_high g)[i := v]\<rparr>) \<and>
         cipher_values (g\<lparr>g_high := (g_high g)[i := v]\<rparr>) (cipher_suites_st (g\<lparr>g_high := (g_high g)[i := v]\<rparr>) config) =
           (g_high g)[i := v]"
proof -
  have "cipher_loop_st (g\<lparr>g_high := (g_high g)[i := v]\<rparr>) (Ciphers config) [] = []"
  proof -
    have "g_high g \<noteq> []" using i by auto
    then show ?thesis by (rule cipher_loop_st_empty [OF none])
  qed
  then show ?thesis using none i by (simp add: cipher_suites_st_def)
qed

theorem cipher_suites_fallback_aliases_witness:
  "cipher_slice_store (cipher_suites_st init_globals tls_config_zero) 0 0 init_globals =
     Inr (HighTable, init_globals\<lparr>g_high := 0 # tl ciphers_high\<rparr>) \<and>
   cipher_values (init_globals\<lparr>g_high := 0 # tl ciphers_high\<rparr>)
     (cipher_suites_st (init_globals\<lparr>g_high := 0 # tl ciphers_high\<rparr>) tls_config_zero) = 0 # tl ciphers_high"
proof -
  have e: "ciphers_high[0 := 0] = 0 # tl ciphers_high" by (simp add: ciphers_high_def)
  show ?thesis
    using cipher_suites_fallback_aliases [of init_globals tls_config_zero 0 0]
    by (simp add: tls_config_zero_def e)
qed

text \<open>
  The table is shared with every later call: after that write an explicit \<open>"high"\<close>
  entry yields the altered table too.
\<close>

lemma cipher_suites_alias_high:
  "cipher_values (init_globals\<lparr>g_high := 0 # tl ciphers_high\<rparr>)
     (cipher_suites_st (init_globals\<lparr>g_high := 0 # tl ciphers_high\<rparr>) \<lparr>MinTLSVersion = [], Ciphers = [''high'']\<rparr>) =
   0 # tl ciphers_high"
proof -
  have "equal_fold (trim_space ''high'') ''high''" by (simp add: go_string_eval)
  then show ?thesis by (simp add: cipher_suites_st_def cipher_step_st_def)
qed

end
