(* ===== verification/Responders.thy ===== *)
theory Responders
  imports GoHeap
begin

text \<open>
  The challenge responders, src/convenience.go lines 92 to 118, and the library code they
  call, modelled from its behaviour.  A \<open>response_writer\<close> abstracts \<open>net/http\<close>'s server
  response: the header map the handler edits (\<open>Header()\<close>, read as the abstract map of
  \<open>GoHeap.header_view\<close>), the status fixed by the first \<open>WriteHeader\<close> (later calls are
  ignored), the header as it was at that moment (the one sent on the wire), and the body.
  \<open>Write\<close> calls \<open>WriteHeader(200)\<close> first if no status is fixed.  \<open>http.Error\<close> is the
  Go 1.22+ one (deletes \<open>Content-Length\<close>, sets a plain-text type and \<open>nosniff\<close>).
  \<open>json.Marshal\<close> is modelled for the values \<open>ForbiddenJSON\<close> builds (strings, arrays, maps
  with sorted keys) with Go's string escaping: HTML-sensitive and control bytes as
  \<open>\u00XX\<close> or short escapes, invalid UTF-8 bytes as \<open>\ufffd\<close>, U+2028/U+2029 escaped.
\<close>

type_synonym header_map = "gostring \<rightharpoonup> gostring list"

record response_writer =
  rw_header :: header_map
  rw_status :: "nat option"
  rw_sent_header :: header_map
  rw_body :: gostring

definition dq :: char where "dq = CHR 0x22"

definition bslash :: char where "bslash = CHR 0x5C"

definition hdr_set :: "header_map \<Rightarrow> gostring \<Rightarrow> gostring \<Rightarrow> header_map" where
  "hdr_set h key value = h(canonical_mime_header_key key \<mapsto> [value])"

definition hdr_del :: "header_map \<Rightarrow> gostring \<Rightarrow> header_map" where
  "hdr_del h key = h(canonical_mime_header_key key := None)"

definition write_header :: "nat \<Rightarrow> response_writer \<Rightarrow> response_writer" where
  "write_header code w =
     (case rw_status w of
        None \<Rightarrow> w\<lparr>rw_status := Some code, rw_sent_header := rw_header w\<rparr>
      | Some _ \<Rightarrow> w)"

definition rw_write :: "gostring \<Rightarrow> response_writer \<Rightarrow> response_writer" where
  "rw_write b w = (let w' = write_header 200 w in w'\<lparr>rw_body := rw_body w' @ b\<rparr>)"

definition http_error :: "response_writer \<Rightarrow> gostring \<Rightarrow> nat \<Rightarrow> response_writer" where
  "http_error w error code =
     (let h0 = hdr_del (rw_header w) ''Content-Length'';
          h1 = hdr_set h0 ''Content-Type'' ''text/plain; charset=utf-8'';
          h2 = hdr_set h1 ''X-Content-Type-Options'' ''nosniff''
      in rw_write (error @ [CHR 0x0A]) (write_header code (w\<lparr>rw_header := h2\<rparr>)))"

definition basic_realm :: gostring where
  "basic_realm = ''Basic realm='' @ [dq] @ ''Couchbase'' @ [dq]"

definition send_unauthorized :: "response_writer \<Rightarrow> response_writer" where
  "send_unauthorized w =
     http_error (w\<lparr>rw_header := hdr_set (rw_header w) ''WWW-Authenticate'' basic_realm\<rparr>)
       ''Authentication Failure.'' 401"

text \<open>UTF-8 as \<open>utf8.DecodeRuneInString\<close> reads it: the length of the valid sequence
  at the head of a string, 0 when the head byte starts no valid sequence.\<close>

definition utf8_cont :: "char \<Rightarrow> bool" where
  "utf8_cont c \<longleftrightarrow> byte_between 128 191 c"

definition utf8_second_ok :: "nat \<Rightarrow> char \<Rightarrow> bool" where
  "utf8_second_ok b c =
     (if b = 224 then byte_between 160 191 c else if b = 237 then byte_between 128 159 c
      else if b = 240 then byte_between 144 191 c else if b = 244 then byte_between 128 143 c
      else byte_between 128 191 c)"

fun utf8_len :: "gostring \<Rightarrow> nat" where
  "utf8_len [] = 0"
| "utf8_len (c # cs) =
     (let b = (of_char c :: nat) in
      if b < 128 then 1
      else if 194 \<le> b \<and> b \<le> 223 then (case cs of c1 # _ \<Rightarrow> if utf8_cont c1 then 2 else 0 | _ \<Rightarrow> 0)
      else if 224 \<le> b \<and> b \<le> 239 then
        (case cs of c1 # c2 # _ \<Rightarrow> if utf8_second_ok b c1 \<and> utf8_cont c2 then 3 else 0 | _ \<Rightarrow> 0)
      else if 240 \<le> b \<and> b \<le> 244 then
        (case cs of c1 # c2 # c3 # _ \<Rightarrow> if utf8_second_ok b c1 \<and> utf8_cont c2 \<and> utf8_cont c3 then 4 else 0
                  | _ \<Rightarrow> 0)
      else 0)"

definition hex_digit :: "nat \<Rightarrow> char" where
  "hex_digit n = ''0123456789abcdef'' ! n"

definition json_escape_byte :: "char \<Rightarrow> gostring" where
  "json_escape_byte c =
     (let b = (of_char c :: nat) in
      if c = dq \<or> c = bslash then [bslash, c]
      else if b = 8 then [bslash, CHR ''b''] else if b = 12 then [bslash, CHR ''f'']
      else if b = 10 then [bslash, CHR ''n''] else if b = 13 then [bslash, CHR ''r'']
      else if b = 9 then [bslash, CHR ''t'']
      else if b < 32 \<or> c = CHR ''<'' \<or> c = CHR ''>'' \<or> c = CHR ''&''
      then [bslash, CHR ''u'', CHR ''0'', CHR ''0'', hex_digit (b div 16), hex_digit (b mod 16)]
      else [c])"

definition is_line_sep :: "gostring \<Rightarrow> bool" where
  "is_line_sep s \<longleftrightarrow> take 2 s = [CHR 0xE2, CHR 0x80] \<and> length s \<ge> 3 \<and> (s ! 2 = CHR 0xA8 \<or> s ! 2 = CHR 0xA9)"

fun json_escape :: "gostring \<Rightarrow> gostring" where
  "json_escape [] = []"
| "json_escape (c # cs) =
     (if (of_char c :: nat) < 128 then json_escape_byte c @ json_escape cs
      else if utf8_len (c # cs) = 0 then [bslash, CHR ''u'', CHR ''f'', CHR ''f'', CHR ''f'', CHR ''d''] @ json_escape cs
      else if is_line_sep (c # cs)
      then [bslash, CHR ''u'', CHR ''2'', CHR ''0'', CHR ''2'', hex_digit (of_char (cs ! 1) mod 16)] @ json_escape (drop 2 cs)
      else take (utf8_len (c # cs)) (c # cs) @ json_escape (drop (utf8_len (c # cs) - 1) cs))"

definition json_quote :: "gostring \<Rightarrow> gostring" where
  "json_quote s = dq # json_escape s @ [dq]"

fun join_with :: "gostring \<Rightarrow> gostring list \<Rightarrow> gostring" where
  "join_with sep [] = []"
| "join_with sep [x] = x"
| "join_with sep (x # y # xs) = x @ sep @ join_with sep (y # xs)"

text \<open>The values \<open>ForbiddenJSON\<close> marshals: strings, arrays, and string-keyed maps, whose
  keys \<open>json.Marshal\<close> writes in sorted order.\<close>

datatype json = JString gostring | JArray "json list" | JObject "(gostring \<times> json) list"

datatype json_error = UnsupportedValue

function json_encode :: "json \<Rightarrow> gostring" where
  "json_encode (JString s) = json_quote s"
| "json_encode (JArray vs) = ''['' @ join_with '','' (map json_encode vs) @ '']''"
| "json_encode (JObject kvs) =
     ''{'' @ join_with '','' (map (\<lambda>(k, v). json_quote k @ '':'' @ json_encode v) (sort_key fst kvs)) @ ''}''"
  by pat_completeness auto
termination
proof (relation "measure size")
  fix kvs :: "(gostring \<times> json) list" and kv k v
  assume "kv \<in> set (sort_key fst kvs)" and "(k, v) = kv"
  then have "(k, v) \<in> set kvs" by simp
  then show "(v, JObject kvs) \<in> measure size"
    by (induction kvs) (auto simp: size_prod_simp)
qed (auto intro!: le_imp_less_Suc size_list_estimation')

definition json_marshal :: "json \<Rightarrow> json_error + gostring" where
  "json_marshal v = Inr (json_encode v)"

definition forbidden_message :: gostring where
  "forbidden_message = ''Forbidden. User needs one of the following permissions''"

definition forbidden_json :: "gostring \<Rightarrow> json_error + gostring" where
  "forbidden_json permission =
     json_marshal (JObject [(''message'', JString forbidden_message), (''permissions'', JArray [JString permission])])"

definition send_forbidden :: "response_writer \<Rightarrow> gostring \<Rightarrow> json_error option \<times> response_writer" where
  "send_forbidden w permission =
     (case forbidden_json permission of
        Inl err \<Rightarrow> (Some err, w)
      | Inr b \<Rightarrow>
          (None, rw_write b (write_header 403 (w\<lparr>rw_header := hdr_set (rw_header w) ''Content-Type'' ''application/json''\<rparr>))))"

text \<open>The reading side: a JSON decoder's string-literal reader (RFC 8259, section 7), for
  escapes of code points of the Basic Multilingual Plane outside the surrogates.\<close>

definition hex_val :: "char \<Rightarrow> nat option" where
  "hex_val c =
     (let b = (of_char c :: nat) in
      if 48 \<le> b \<and> b \<le> 57 then Some (b - 48) else if 97 \<le> b \<and> b \<le> 102 then Some (b - 87)
      else if 65 \<le> b \<and> b \<le> 70 then Some (b - 55) else None)"

definition hex4 :: "gostring \<Rightarrow> nat option" where
  "hex4 cs = (if length cs = 4 then map_option (foldl (\<lambda>acc d. acc * 16 + d) 0) (those (map hex_val cs)) else None)"

definition utf8_encode :: "nat \<Rightarrow> gostring" where
  "utf8_encode cp =
     (if cp < 128 then [char_of cp]
      else if cp < 2048 then [char_of (192 + cp div 64), char_of (128 + cp mod 64)]
      else [char_of (224 + cp div 4096), char_of (128 + cp div 64 mod 64), char_of (128 + cp mod 64)])"

fun json_unescape :: "gostring \<Rightarrow> gostring option" where
  "json_unescape [] = Some []"
| "json_unescape (c # cs) =
     (if c = bslash then
        (case cs of
           [] \<Rightarrow> None
         | e # rest \<Rightarrow>
             (if e = dq \<or> e = bslash \<or> e = CHR ''/'' then map_option ((#) e) (json_unescape rest)
              else if e = CHR ''b'' then map_option ((#) (CHR 0x08)) (json_unescape rest)
              else if e = CHR ''f'' then map_option ((#) (CHR 0x0C)) (json_unescape rest)
              else if e = CHR ''n'' then map_option ((#) (CHR 0x0A)) (json_unescape rest)
              else if e = CHR ''r'' then map_option ((#) (CHR 0x0D)) (json_unescape rest)
              else if e = CHR ''t'' then map_option ((#) (CHR 0x09)) (json_unescape rest)
              else if e = CHR ''u'' then
                (case hex4 (take 4 rest) of
                   None \<Rightarrow> None
                 | Some cp \<Rightarrow> if 55296 \<le> cp \<and> cp \<le> 57343 then None
                             else map_option ((@) (utf8_encode cp)) (json_unescape (drop 4 rest)))
              else None))
      else if c = dq \<or> (of_char c :: nat) < 32 then None
      else map_option ((#) c) (json_unescape cs))"

definition json_unquote :: "gostring \<Rightarrow> gostring option" where
  "json_unquote q = (if 2 \<le> length q \<and> hd q = dq \<and> last q = dq then json_unescape (butlast (tl q)) else None)"

fun utf8_valid :: "gostring \<Rightarrow> bool" where
  "utf8_valid [] = True"
| "utf8_valid (c # cs) = (utf8_len (c # cs) \<noteq> 0 \<and> utf8_valid (drop (utf8_len (c # cs) - 1) cs))"

text \<open>Bytes \<open>json.Marshal\<close> copies into a string literal unchanged.\<close>

definition json_plain :: "char \<Rightarrow> bool" where
  "json_plain c \<longleftrightarrow> byte_between 32 127 c \<and> c \<notin> {dq, bslash, CHR ''<'', CHR ''>'', CHR ''&''}"

text \<open>A response writer as the server hands it to a handler: nothing written yet.\<close>

definition fresh_writer :: response_writer where
  "fresh_writer = \<lparr>rw_header = Map.empty, rw_status = None, rw_sent_header = Map.empty, rw_body = []\<rparr>"

lemma char_of_of_char_eq: "(of_char c :: nat) = n \<Longrightarrow> c = char_of n"
  by (metis char_of_char)

lemma hex_val_digit: "n < 16 \<Longrightarrow> hex_val (hex_digit n) = Some n"
proof -
  assume "n < 16"
  then have "n \<in> {0..<16}" by simp
  also have "{0..<16} = {0, 1, 2, 3, 4, 5, 6, 7, 8, 9, 10, 11, 12, 13, 14, (15::nat)}" by (simp add: atLeast0LessThan lessThan_nat_numeral) auto
  finally show ?thesis by (auto simp: hex_val_def hex_digit_def)
qed

lemma json_unescape_escape_byte:
  assumes "(of_char c :: nat) < 128"
  shows "json_unescape (json_escape_byte c @ r) = map_option ((#) c) (json_unescape r)"
proof -
  let ?b = "of_char c :: nat"
  consider (q) "c = dq \<or> c = bslash" | (s) "c \<noteq> dq \<and> c \<noteq> bslash \<and> ?b \<in> {8, 12, 10, 13, 9}"
    | (u) "c \<noteq> dq \<and> c \<noteq> bslash \<and> ?b \<notin> {8, 12, 10, 13, 9} \<and>
           (?b < 32 \<or> c = CHR ''<'' \<or> c = CHR ''>'' \<or> c = CHR ''&'')"
    | (p) "c \<noteq> dq \<and> c \<noteq> bslash \<and> ?b \<notin> {8, 12, 10, 13, 9} \<and>
           \<not> (?b < 32 \<or> c = CHR ''<'' \<or> c = CHR ''>'' \<or> c = CHR ''&'')"
    by blast
  then show ?thesis
  proof cases
    case q then show ?thesis by (auto simp: json_escape_byte_def dq_def bslash_def)
  next
    case s
    have ctl: "char_of (8::nat) = CHR 0x08" "char_of (12::nat) = CHR 0x0C" "char_of (10::nat) = CHR 0x0A"
      "char_of (13::nat) = CHR 0x0D" "char_of (9::nat) = CHR 0x09"
      by (simp_all add: char_of_eq_iff)
    from s show ?thesis by (auto simp: json_escape_byte_def dq_def bslash_def ctl dest!: char_of_of_char_eq)
  next
    case u
    have lo: "?b mod 16 < 16" and hi: "?b div 16 < 16" using assms by simp_all
    have "hex4 [CHR ''0'', CHR ''0'', hex_digit (?b div 16), hex_digit (?b mod 16)] = Some ?b"
      using hex_val_digit [OF lo] hex_val_digit [OF hi] by (simp add: hex4_def hex_val_def)
    moreover have "utf8_encode ?b = [c]" using assms by (simp add: utf8_encode_def)
    moreover have "json_escape_byte c = [bslash, CHR ''u'', CHR ''0'', CHR ''0'', hex_digit (?b div 16), hex_digit (?b mod 16)]"
      using u by (auto simp: json_escape_byte_def Let_def)
    moreover have "((@) [c]) = ((#) c)" by (rule ext) simp
    ultimately show ?thesis using assms by (simp add: bslash_def dq_def)
  next
    case p
    then have "json_escape_byte c = [c]" by (auto simp: json_escape_byte_def Let_def)
    then show ?thesis using p by simp
  qed
qed

lemma json_unescape_high:
  "\<forall>x\<in>set xs. 128 \<le> (of_char x :: nat) \<Longrightarrow> json_unescape (xs @ r) = map_option ((@) xs) (json_unescape r)"
proof (induction xs)
  case Nil then show ?case by (simp add: option.map_ident)
next
  case (Cons x xs)
  have "x \<noteq> bslash \<and> x \<noteq> dq \<and> \<not> (of_char x :: nat) < 32" using Cons.prems by (auto simp: bslash_def dq_def)
  then show ?case using Cons by (simp add: option.map_comp comp_def)
qed

lemma utf8_ge:
  "utf8_cont x \<Longrightarrow> 128 \<le> (of_char x :: nat)"
  "utf8_second_ok b x \<Longrightarrow> 128 \<le> (of_char x :: nat)"
  by (auto simp: utf8_cont_def utf8_second_ok_def byte_between_def split: if_splits)

lemma utf8_len_cases:
  assumes "128 \<le> (of_char c :: nat)" and "utf8_len (c # cs) = n" and "0 < n"
  shows "(\<exists>c1 r. cs = c1 # r \<and> n = 2 \<and> utf8_cont c1) \<or>
         (\<exists>c1 c2 r. cs = c1 # c2 # r \<and> n = 3 \<and> utf8_second_ok (of_char c) c1 \<and> utf8_cont c2) \<or>
         (\<exists>c1 c2 c3 r. cs = c1 # c2 # c3 # r \<and> n = 4 \<and> utf8_second_ok (of_char c) c1 \<and> utf8_cont c2 \<and> utf8_cont c3)"
proof -
  have "\<not> (of_char c :: nat) < 128" using assms(1) by simp
  then show ?thesis using assms(2,3)
    by (cases cs rule: remdups_adj.cases; cases "tl (tl cs)"; simp add: Let_def split: if_splits list.splits)
qed
lemma utf8_len_high:
  assumes "128 \<le> (of_char c :: nat)" and "utf8_len (c # cs) = n" and "0 < n"
  shows "\<forall>x\<in>set (take n (c # cs)). 128 \<le> (of_char x :: nat)"
  using utf8_len_cases [OF assms] assms(1) by (auto dest: utf8_ge)

lemma line_sep_decode:
  assumes "is_line_sep (c # cs)"
  shows "utf8_len (c # cs) = 3 \<and>
         json_unescape ([bslash, CHR ''u'', CHR ''2'', CHR ''0'', CHR ''2'', hex_digit (of_char (cs ! 1) mod 16)] @ r) =
           map_option ((@) (take 3 (c # cs))) (json_unescape r)"
proof -
  obtain x rest where cs: "cs = CHR 0x80 # x # rest" and c: "c = CHR 0xE2"
    and x: "x = CHR 0xA8 \<or> x = CHR 0xA9"
  proof -
    obtain y z rest where "cs = y # z # rest"
      using assms by (cases cs rule: remdups_adj.cases) (auto simp: is_line_sep_def)
    then show ?thesis using assms that by (auto simp: is_line_sep_def)
  qed
  have sec: "utf8_second_ok 226 (CHR 0x80)" and ct: "utf8_cont (CHR 0xA8)" "utf8_cont (CHR 0xA9)"
    by (simp_all add: utf8_second_ok_def utf8_cont_def byte_between_def)
  show ?thesis
  proof (cases "x = CHR 0xA8")
    case True
    have "hex4 (take 4 [CHR ''2'', CHR ''0'', CHR ''2'', hex_digit 8]) = Some 8232"
      using hex_val_digit [of 8] by (simp add: hex4_def hex_val_def)
    moreover have "utf8_encode 8232 = [CHR 0xE2, CHR 0x80, CHR 0xA8]"
      by (simp add: utf8_encode_def char_of_eq_iff)
    ultimately show ?thesis using True c cs sec ct
      by (simp add: bslash_def dq_def Let_def)
  next
    case False
    then have x9: "x = CHR 0xA9" using x by simp
    have "hex4 (take 4 [CHR ''2'', CHR ''0'', CHR ''2'', hex_digit 9]) = Some 8233"
      using hex_val_digit [of 9] by (simp add: hex4_def hex_val_def)
    moreover have "utf8_encode 8233 = [CHR 0xE2, CHR 0x80, CHR 0xA9]"
      by (simp add: utf8_encode_def char_of_eq_iff)
    ultimately show ?thesis using x9 c cs sec ct
      by (simp add: bslash_def dq_def Let_def)
  qed
qed

lemma json_escape_roundtrip: "utf8_valid s \<Longrightarrow> json_unescape (json_escape s) = Some s"
proof (induction s rule: json_escape.induct)
  case 1 then show ?case by simp
next
  case (2 c cs)
  show ?case
  proof (cases "(of_char c :: nat) < 128")
    case True
    then have "utf8_valid cs" using "2.prems" by simp
    then show ?thesis using "2.IH"(1) [OF True] True by (simp add: json_unescape_escape_byte)
  next
    case high: False
    have n0: "utf8_len (c # cs) \<noteq> 0" and v: "utf8_valid (drop (utf8_len (c # cs) - 1) cs)"
      using "2.prems" by simp_all
    show ?thesis
    proof (cases "is_line_sep (c # cs)")
      case True
      have l: "utf8_len (c # cs) = 3 \<and>
         json_unescape ([bslash, CHR ''u'', CHR ''2'', CHR ''0'', CHR ''2'', hex_digit (of_char (cs ! 1) mod 16)] @
            json_escape (drop 2 cs)) =
           map_option ((@) (take 3 (c # cs))) (json_unescape (json_escape (drop 2 cs)))"
        using line_sep_decode [OF True] .
      then have "json_unescape (json_escape (drop 2 cs)) = Some (drop 2 cs)"
        using "2.IH"(3) [OF high n0 True] v by simp
      then show ?thesis using l high n0 True by simp
    next
      case False
      let ?n = "utf8_len (c # cs)"
      have hi: "\<forall>x\<in>set (take ?n (c # cs)). 128 \<le> (of_char x :: nat)"
        using utf8_len_high [of c cs ?n] high n0 by simp
      have ih: "json_unescape (json_escape (drop (?n - 1) cs)) = Some (drop (?n - 1) cs)"
        using "2.IH"(4) [OF high n0 False] v by simp
      have "take ?n (c # cs) @ drop (?n - 1) cs = c # cs"
        using n0 by (cases ?n) simp_all
      then show ?thesis using json_unescape_high [OF hi] ih high n0 False by simp
    qed
  qed
qed

lemma json_unquote_quote: "utf8_valid s \<Longrightarrow> json_unquote (json_quote s) = Some s"
  by (simp add: json_unquote_def json_quote_def json_escape_roundtrip)

lemma json_escape_plain: "list_all json_plain s \<Longrightarrow> json_escape s = s"
proof (induction s)
  case Nil then show ?case by simp
next
  case (Cons c cs)
  then have "json_escape_byte c = [c]" and "(of_char c :: nat) < 128"
    by (auto simp: json_plain_def json_escape_byte_def byte_between_def Let_def dq_def bslash_def)
  then show ?case using Cons by simp
qed

lemma canonical_keys [simp]:
  "canonical_mime_header_key ''WWW-Authenticate'' = ''Www-Authenticate''"
  "canonical_mime_header_key ''Content-Type'' = ''Content-Type''"
  "canonical_mime_header_key ''Content-Length'' = ''Content-Length''"
  "canonical_mime_header_key ''X-Content-Type-Options'' = ''X-Content-Type-Options''"
  by (simp_all add: canonical_mime_header_key_def is_token_byte_def ascii_simps char_of_eq_iff Let_def)

lemma forbidden_json_encode:
  "forbidden_json p =
     Inr (''{'' @ json_quote ''message'' @ '':'' @ json_quote forbidden_message @ '','' @
          json_quote ''permissions'' @ '':['' @ json_quote p @ '']}'')"
  by (simp add: forbidden_json_def json_marshal_def)

text \<open>
  C23: on a response not yet committed, \<open>SendUnauthorized\<close> sends status 401 with the
  challenge \<open>WWW-Authenticate: Basic realm="Couchbase"\<close> (canonicalised by \<open>Header.Set\<close>
  to \<open>Www-Authenticate\<close>), a plain-text content type and \<open>nosniff\<close>, and the body
  \<open>Authentication Failure.\<close> followed by a newline.
\<close>

theorem send_unauthorized_challenge:
  assumes "rw_status w = None"
  shows "rw_status (send_unauthorized w) = Some 401 \<and>
         rw_sent_header (send_unauthorized w) ''Www-Authenticate'' = Some [''Basic realm='' @ [dq] @ ''Couchbase'' @ [dq]] \<and>
         rw_sent_header (send_unauthorized w) ''Content-Type'' = Some [''text/plain; charset=utf-8''] \<and>
         rw_sent_header (send_unauthorized w) ''X-Content-Type-Options'' = Some [''nosniff''] \<and>
         rw_body (send_unauthorized w) = rw_body w @ ''Authentication Failure.'' @ [CHR 0x0A]"
  using assms
  by (simp add: send_unauthorized_def http_error_def write_header_def rw_write_def hdr_set_def hdr_del_def
      basic_realm_def Let_def)

theorem send_unauthorized_challenge_witness:
  "rw_status (send_unauthorized fresh_writer) = Some 401 \<and>
   rw_sent_header (send_unauthorized fresh_writer) ''Www-Authenticate'' = Some [''Basic realm='' @ [dq] @ ''Couchbase'' @ [dq]] \<and>
   rw_sent_header (send_unauthorized fresh_writer) ''Content-Type'' = Some [''text/plain; charset=utf-8''] \<and>
   rw_sent_header (send_unauthorized fresh_writer) ''X-Content-Type-Options'' = Some [''nosniff''] \<and>
   rw_body (send_unauthorized fresh_writer) = ''Authentication Failure.'' @ [CHR 0x0A]"
  using send_unauthorized_challenge [of fresh_writer] by (simp add: fresh_writer_def)

text \<open>
  C24: for every permission that is valid UTF-8, the body of \<open>ForbiddenJSON\<close> is the fixed
  object with the permission as the one string of the \<open>permissions\<close> array, and a JSON
  reader decodes that string back to exactly the permission.
\<close>

theorem forbidden_json_permission_roundtrip:
  assumes "utf8_valid p"
  shows "\<exists>q. forbidden_json p =
              Inr (''{'' @ json_quote ''message'' @ '':'' @ json_quote forbidden_message @ '','' @
                   json_quote ''permissions'' @ '':['' @ q @ '']}'') \<and> json_unquote q = Some p"
  using forbidden_json_encode [of p] json_unquote_quote [OF assms] by blast

theorem forbidden_json_permission_roundtrip_witness:
  "\<exists>q. forbidden_json ''views'' =
        Inr (''{'' @ json_quote ''message'' @ '':'' @ json_quote forbidden_message @ '','' @
             json_quote ''permissions'' @ '':['' @ q @ '']}'') \<and> json_unquote q = Some ''views''"
  using forbidden_json_permission_roundtrip [of "''views''"] by (simp add: Let_def)

text \<open>
  C25: on a response not yet committed, \<open>SendForbidden\<close> returns no error and sends status
  403 with \<open>Content-Type: application/json\<close> and the body of \<open>ForbiddenJSON\<close>.
\<close>

theorem send_forbidden_response:
  assumes "rw_status w = None"
  shows "fst (send_forbidden w p) = None \<and> rw_status (snd (send_forbidden w p)) = Some 403 \<and>
         rw_sent_header (snd (send_forbidden w p)) ''Content-Type'' = Some [''application/json''] \<and>
         (\<exists>b. forbidden_json p = Inr b \<and> rw_body (snd (send_forbidden w p)) = rw_body w @ b)"
  using assms
  by (simp add: send_forbidden_def forbidden_json_encode write_header_def rw_write_def hdr_set_def)

theorem send_forbidden_response_witness:
  "fst (send_forbidden fresh_writer ''views'') = None \<and> rw_status (snd (send_forbidden fresh_writer ''views'')) = Some 403 \<and>
   rw_sent_header (snd (send_forbidden fresh_writer ''views'')) ''Content-Type'' = Some [''application/json''] \<and>
   (\<exists>b. forbidden_json ''views'' = Inr b \<and> rw_body (snd (send_forbidden fresh_writer ''views'')) = b)"
  using send_forbidden_response [of fresh_writer "''views''"] by (simp add: fresh_writer_def)

text \<open>
  \<open>SendForbidden\<close> never returns an error: \<open>json.Marshal\<close> cannot fail on the value
  \<open>ForbiddenJSON\<close> builds, so the error branch of lines 111 to 113 is unreachable.
\<close>

theorem send_forbidden_never_errors: "fst (send_forbidden w p) = None"
  by (simp add: send_forbidden_def forbidden_json_encode)

end
