(* ===== verification/JSONScan.thy ===== *)
theory JSONScan
  imports Responders
begin

text \<open>
  The lexical level of \<open>encoding/json\<close>'s decoder (library code, modelled from its
  behaviour): white space (space, tab, LF, CR), string literals and numbers.
  \<^item> \<open>scan_string\<close>: a string literal after its opening quote, checked as the scanner of
    \<open>checkValid\<close> checks it (no control byte; a backslash only before one of the
    characters of \<open>"/bfnrt\<close>, itself, or \<open>u\<close> and four hex digits) and decoded as
    \<open>unquote\<close> decodes it: a surrogate pair of \<open>u\<close> escapes becomes one four-byte rune, a
    lone surrogate and every byte that is not valid UTF-8 become U+FFFD.  It returns the
    decoded bytes and the input after the closing quote.
  \<^item> \<open>scan_number\<close>: the scanner's number grammar, \<open>-?(0|[1-9][0-9]*)(.[0-9]+)?([eE][+-]?[0-9]+)?\<close>.
  Every error of the scanner is a \<open>SyntaxError\<close>, so a scan returns \<open>None\<close> on
  error and \<open>Some\<close> of its result otherwise.
\<close>

abbreviation json_ws :: "char \<Rightarrow> bool" where
  "json_ws c \<equiv> c = CHR '' '' \<or> c = CHR 0x09 \<or> c = CHR 0x0A \<or> c = CHR 0x0D"

abbreviation skip_ws :: "gostring \<Rightarrow> gostring" where
  "skip_ws s \<equiv> dropWhile json_ws s"

abbreviation replacement_char :: gostring where
  "replacement_char \<equiv> [CHR 0xEF, CHR 0xBF, CHR 0xBD]"

fun scan_string :: "gostring \<Rightarrow> gostring \<Rightarrow> (gostring \<times> gostring) option" where
  "scan_string [] acc = None"
| "scan_string (c # cs) acc =
     (if c = dq then Some (acc, cs)
      else if c = bslash then
        (case cs of
           [] \<Rightarrow> None
         | e # rest \<Rightarrow>
             (if e = dq \<or> e = bslash \<or> e = CHR ''/'' then scan_string rest (acc @ [e])
              else if e = CHR ''b'' then scan_string rest (acc @ [CHR 0x08])
              else if e = CHR ''f'' then scan_string rest (acc @ [CHR 0x0C])
              else if e = CHR ''n'' then scan_string rest (acc @ [CHR 0x0A])
              else if e = CHR ''r'' then scan_string rest (acc @ [CHR 0x0D])
              else if e = CHR ''t'' then scan_string rest (acc @ [CHR 0x09])
              else if e = CHR ''u'' then
                (case hex4 (take 4 rest) of
                   None \<Rightarrow> None
                 | Some r1 \<Rightarrow>
                     if 55296 \<le> r1 \<and> r1 < 57344 then
                       (case hex4 (take 4 (drop 6 rest)) of
                          Some r2 \<Rightarrow>
                            if take 2 (drop 4 rest) = [bslash, CHR ''u''] \<and> r1 < 56320 \<and> 56320 \<le> r2 \<and> r2 < 57344
                            then (let cp = 65536 + (r1 - 55296) * 1024 + (r2 - 56320) in
                                  scan_string (drop 10 rest)
                                    (acc @ [char_of (240 + cp div 262144), char_of (128 + cp div 4096 mod 64),
                                            char_of (128 + cp div 64 mod 64), char_of (128 + cp mod 64)]))
                            else scan_string (drop 4 rest) (acc @ replacement_char)
                        | None \<Rightarrow> scan_string (drop 4 rest) (acc @ replacement_char))
                     else scan_string (drop 4 rest) (acc @ utf8_encode r1))
              else None))
      else if (of_char c :: nat) < 32 then None
      else if (of_char c :: nat) < 128 then scan_string cs (acc @ [c])
      else if utf8_len (c # cs) = 0 then scan_string cs (acc @ replacement_char)
      else scan_string (drop (utf8_len (c # cs) - 1) cs) (acc @ take (utf8_len (c # cs)) (c # cs)))"

definition scan_number :: "gostring \<Rightarrow> (gostring \<times> gostring) option" where
  "scan_number s =
     (let sg = takeWhile (\<lambda>c. c = CHR ''-'') (take 1 s);
          s1 = drop (length sg) s;
          ip = (if take 1 s1 = ''0'' then ''0'' else takeWhile (byte_between 48 57) s1);
          s2 = drop (length ip) s1;
          fr = (if take 1 s2 = ''.'' then ''.'' @ takeWhile (byte_between 48 57) (drop 1 s2) else []);
          s3 = drop (length fr) s2;
          ex = (if take 1 s3 = ''e'' \<or> take 1 s3 = ''E'' then
                  (let sg2 = takeWhile (\<lambda>c. c = CHR ''+'' \<or> c = CHR ''-'') (take 1 (drop 1 s3)) in
                   take 1 s3 @ sg2 @ takeWhile (byte_between 48 57) (drop (1 + length sg2) s3))
                else []);
          s4 = drop (length ex) s3
      in if ip = [] \<or> fr = ''.'' \<or> (ex \<noteq> [] \<and> \<not> byte_between 48 57 (last ex)) then None
         else Some (sg @ ip @ fr @ ex, s4))"

lemma scan_string_shorter: "scan_string cs acc = Some (k, r) \<Longrightarrow> length r < length cs"
proof (induction "length cs" arbitrary: cs acc rule: less_induct)
  case less
  obtain c cs' where cs: "cs = c # cs'" using less.prems by (cases cs) auto
  have IH: "\<And>x a. length x \<le> length cs' \<Longrightarrow> scan_string x a = Some (k, r) \<Longrightarrow> length r < length cs"
  proof -
    fix x a assume l: "length x \<le> length cs'" and s: "scan_string x a = Some (k, r)"
    then have lt: "length x < length cs" using cs by simp
    then have "length r < length x" using less.hyps s by blast
    then show "length r < length cs" using lt by simp
  qed
  consider (q) "c = dq" | (b) "c \<noteq> dq" "c = bslash" | (o) "c \<noteq> dq" "c \<noteq> bslash" by blast
  then show ?case
  proof cases
    case q then show ?thesis using less.prems cs by simp
  next
    case o
    then show ?thesis
      using less.prems cs IH [of cs'] IH [of "drop (utf8_len (c # cs') - 1) cs'"]
      by (auto simp: Let_def split: if_splits)
  next
    case b
    then obtain e rest where cs': "cs' = e # rest" using less.prems cs by (cases cs') auto
    have L: "\<And>x a. length x \<le> length rest \<Longrightarrow> scan_string x a = Some (k, r) \<Longrightarrow> length r < length cs"
      using IH cs' by (metis le_SucI length_Cons)
    show ?thesis
      using less.prems cs cs' b L [of rest] L [of "drop 4 rest"] L [of "drop 10 rest"]
      by (auto simp: Let_def split: if_splits option.splits)
  qed
qed


text \<open>The scanner reads back what \<open>json.Marshal\<close>'s string escaping writes.\<close>

lemma scan_string_escape_byte:
  assumes "(of_char c :: nat) < 128"
  shows "scan_string (json_escape_byte c @ r) acc = scan_string r (acc @ [c])"
proof -
  let ?b = "of_char c :: nat"
  consider (q) "c = dq \<or> c = bslash" | (s) "c \<noteq> dq \<and> c \<noteq> bslash \<and> ?b \<in> {8, 12, 10, 13, 9}"
    | (u) "c \<noteq> dq \<and> c \<noteq> bslash \<and> ?b \<notin> {8, 12, 10, 13, 9} \<and>
           (?b < 32 \<or> c = CHR ''<'' \<or> c = CHR ''>'' \<or> c = CHR ''&'')"
    | (p) "c \<noteq> dq \<and> c \<noteq> bslash \<and> ?b \<notin> {8, 12, 10, 13, 9} \<and>
           \<not> (?b < 32 \<or> c = CHR ''<'' \<or> c = CHR ''>'' \<or> c = CHR ''&'')"
    by blast
  then show ?thesis
  proof cases
    case q then show ?thesis by (auto simp: json_escape_byte_def dq_def bslash_def)
  next
    case s
    have ctl: "char_of (8::nat) = CHR 0x08" "char_of (12::nat) = CHR 0x0C" "char_of (10::nat) = CHR 0x0A"
      "char_of (13::nat) = CHR 0x0D" "char_of (9::nat) = CHR 0x09"
      by (simp_all add: char_of_eq_iff)
    from s show ?thesis by (auto simp: json_escape_byte_def dq_def bslash_def ctl dest!: char_of_of_char_eq)
  next
    case u
    have lo: "?b mod 16 < 16" and hi: "?b div 16 < 16" using assms by simp_all
    have "hex4 [CHR ''0'', CHR ''0'', hex_digit (?b div 16), hex_digit (?b mod 16)] = Some ?b"
      using hex_val_digit [OF lo] hex_val_digit [OF hi] by (simp add: hex4_def hex_val_def)
    moreover have "utf8_encode ?b = [c]" using assms by (simp add: utf8_encode_def)
    moreover have "json_escape_byte c = [bslash, CHR ''u'', CHR ''0'', CHR ''0'', hex_digit (?b div 16), hex_digit (?b mod 16)]"
      using u by (auto simp: json_escape_byte_def Let_def)
    ultimately show ?thesis using assms by (simp add: bslash_def dq_def)
  next
    case p
    then have "json_escape_byte c = [c]" by (auto simp: json_escape_byte_def Let_def)
    then show ?thesis using p assms by simp
  qed
qed

lemma utf8_len_append:
  assumes "utf8_len (c # cs) = n" and "0 < n"
  shows "utf8_len (take n (c # cs) @ r) = n"
  using assms
  by (cases cs rule: remdups_adj.cases; cases "tl (tl cs)"; auto simp: Let_def split: if_splits list.splits)

lemma scan_string_rune:
  assumes hi: "128 \<le> (of_char c :: nat)" and n: "utf8_len (c # cs) = n" and n0: "0 < n"
  shows "scan_string (take n (c # cs) @ r) acc = scan_string r (acc @ take n (c # cs))"
proof -
  have nd: "c \<noteq> dq \<and> c \<noteq> bslash \<and> \<not> (of_char c :: nat) < 32 \<and> \<not> (of_char c :: nat) < 128"
    using hi by (auto simp: dq_def bslash_def)
  have len: "n - 1 \<le> length cs" using utf8_len_cases [OF hi n n0] by auto
  have tk: "take n (c # cs) @ r = c # (take (n - 1) cs @ r)" using n0 by (cases n) auto
  have u: "utf8_len (c # (take (n - 1) cs @ r)) = n" using utf8_len_append [OF n n0, of r] tk by simp
  have "take n (c # (take (n - 1) cs @ r)) = take n (c # cs)" using n0 len by (cases n) auto
  moreover have "drop (n - 1) (take (n - 1) cs @ r) = r" using len by simp
  ultimately show ?thesis using nd u n0 tk by (simp only: scan_string.simps) simp
qed

lemma scan_string_line_sep:
  assumes "is_line_sep (c # cs)"
  shows "scan_string ([bslash, CHR ''u'', CHR ''2'', CHR ''0'', CHR ''2'', hex_digit (of_char (cs ! 1) mod 16)] @ r) acc =
           scan_string r (acc @ take 3 (c # cs))"
proof -
  obtain x rest where cs: "cs = CHR 0x80 # x # rest" and c: "c = CHR 0xE2"
    and x: "x = CHR 0xA8 \<or> x = CHR 0xA9"
  proof -
    obtain y z rest where "cs = y # z # rest"
      using assms by (cases cs rule: remdups_adj.cases) (auto simp: is_line_sep_def)
    then show ?thesis using assms that by (auto simp: is_line_sep_def)
  qed
  show ?thesis
  proof (cases "x = CHR 0xA8")
    case True
    have "hex4 (take 4 [CHR ''2'', CHR ''0'', CHR ''2'', hex_digit 8]) = Some 8232"
      using hex_val_digit [of 8] by (simp add: hex4_def hex_val_def)
    moreover have "utf8_encode 8232 = [CHR 0xE2, CHR 0x80, CHR 0xA8]"
      by (simp add: utf8_encode_def char_of_eq_iff)
    ultimately show ?thesis using True c cs by (simp add: bslash_def dq_def Let_def)
  next
    case False
    then have x9: "x = CHR 0xA9" using x by simp
    have "hex4 (take 4 [CHR ''2'', CHR ''0'', CHR ''2'', hex_digit 9]) = Some 8233"
      using hex_val_digit [of 9] by (simp add: hex4_def hex_val_def)
    moreover have "utf8_encode 8233 = [CHR 0xE2, CHR 0x80, CHR 0xA9]"
      by (simp add: utf8_encode_def char_of_eq_iff)
    ultimately show ?thesis using x9 c cs by (simp add: bslash_def dq_def Let_def)
  qed
qed

lemma scan_string_escape:
  "utf8_valid s \<Longrightarrow> scan_string (json_escape s @ r) acc = scan_string r (acc @ s)"
proof (induction s arbitrary: acc rule: json_escape.induct)
  case 1 then show ?case by simp
next
  case (2 c cs)
  show ?case
  proof (cases "(of_char c :: nat) < 128")
    case True
    have e: "json_escape (c # cs) = json_escape_byte c @ json_escape cs" using True by simp
    have "utf8_valid cs" using "2.prems" True by simp
    then have "scan_string (json_escape cs @ r) (acc @ [c]) = scan_string r (acc @ [c] @ cs)"
      using "2.IH"(1) [OF True] by simp
    then show ?thesis using scan_string_escape_byte [OF True, of "json_escape cs @ r" acc] e by simp
  next
    case high: False
    have n0: "utf8_len (c # cs) \<noteq> 0" and v: "utf8_valid (drop (utf8_len (c # cs) - 1) cs)"
      using "2.prems" by simp_all
    show ?thesis
    proof (cases "is_line_sep (c # cs)")
      case True
      have three: "utf8_len (c # cs) = 3" using line_sep_decode [OF True] by blast
      have e: "json_escape (c # cs) =
          [bslash, CHR ''u'', CHR ''2'', CHR ''0'', CHR ''2'', hex_digit (of_char (cs ! 1) mod 16)] @ json_escape (drop 2 cs)"
        using high n0 True by simp
      have ih: "scan_string (json_escape (drop 2 cs) @ r) (acc @ take 3 (c # cs)) =
                scan_string r (acc @ take 3 (c # cs) @ drop 2 cs)"
        using "2.IH"(3) [OF high n0 True] v three by simp
      have "take 3 (c # cs) @ drop 2 cs = c # cs" by simp
      then show ?thesis using scan_string_line_sep [OF True, of "json_escape (drop 2 cs) @ r" acc] e ih
        by (simp only: append_assoc)
    next
      case False
      let ?n = "utf8_len (c # cs)"
      have e: "json_escape (c # cs) = take ?n (c # cs) @ json_escape (drop (?n - 1) cs)"
        using high n0 False by simp
      have tk: "take ?n (c # cs) @ drop (?n - 1) cs = c # cs"
        using n0 by (cases ?n) simp_all
      have ih: "scan_string (json_escape (drop (?n - 1) cs) @ r) (acc @ take ?n (c # cs)) =
                scan_string r (acc @ take ?n (c # cs) @ drop (?n - 1) cs)"
        using "2.IH"(4) [OF high n0 False] v by simp
      have "scan_string (json_escape (c # cs) @ r) acc =
            scan_string (json_escape (drop (?n - 1) cs) @ r) (acc @ take ?n (c # cs))"
        using scan_string_rune [of c cs ?n "json_escape (drop (?n - 1) cs) @ r" acc] high n0 e
        by (simp only: append_assoc)
      then show ?thesis using ih tk by simp
    qed
  qed
qed

lemma scan_string_quote: "utf8_valid s \<Longrightarrow> scan_string (json_escape s @ dq # r) acc = Some (acc @ s, r)"
  by (simp add: scan_string_escape)

lemma scan_number_shorter:
  assumes "scan_number s = Some (n, r)" shows "length r < length s"
proof -
  define s1 where "s1 = drop (length (takeWhile (\<lambda>c. c = CHR ''-'') (take 1 s))) s"
  define ip where "ip = (if take 1 s1 = ''0'' then ''0'' else takeWhile (byte_between 48 57) s1)"
  have r: "length r \<le> length s1 - length ip" and ip: "ip \<noteq> []"
    using assms unfolding scan_number_def Let_def s1_def [symmetric] ip_def [symmetric]
    by (auto split: if_splits)
  have "length ip \<le> length s1"
    unfolding ip_def by (cases s1) (auto simp: length_takeWhile_le)
  moreover have "length s1 \<le> length s" by (simp add: s1_def)
  ultimately show ?thesis using r ip by (cases ip) auto
qed

lemma skip_ws_Cons_shorter: "skip_ws s = c # r \<Longrightarrow> length r < length s"
  using length_dropWhile_le [of json_ws s] by simp

end
