(* ===== verification/GoJSON.thy ===== *)
theory GoJSON
  imports JSONScan
begin

text \<open>
  The reading side of \<open>encoding/json\<close> as \<open>json.Unmarshal\<close> runs it on the
  configuration \<open>getTLSConfig\<close> decodes (library code, modelled from its behaviour):
  \<^item> \<open>parse_at\<close>: the scanner's state machine as a recursive-descent parser producing the
    value tree \<open>jvalue\<close>; \<open>PValue\<close> reads one value, \<open>PElems\<close> the elements of an array
    after its \<open>[\<close>, \<open>PMembers\<close> the members of an object after its \<open>{\<close>; \<open>d\<close> is the depth
    of the scanner's parse-state stack, which may not exceed \<open>maxNestingDepth = 10000\<close>.
  White space is space, tab, LF and CR only.  \<open>parse_at\<close> returns \<open>None\<close> where the
  scanner stops with an error; \<open>check_valid\<close> reports it as the one error the scanner
  has, \<open>SyntaxError\<close>.  \<open>UnmarshalTypeError\<close> is the decoder's error for a value of
  the wrong JSON type.  The guards \<open>length r < length s\<close> in \<open>parse_at\<close> make its recursion
  evidently well-founded; \<open>parse_at_consumes\<close> shows they always hold.
\<close>

datatype jvalue = JVNull | JVBool bool | JVNum gostring | JVStr gostring
  | JVArr "jvalue list" | JVObj "(gostring \<times> jvalue) list"

datatype pmode = PValue | PElems | PMembers

function parse_at :: "pmode \<Rightarrow> nat \<Rightarrow> gostring \<Rightarrow> (jvalue \<times> gostring) option" where
  "parse_at PValue d s =
     (case skip_ws s of
        [] \<Rightarrow> None
      | c # cs \<Rightarrow>
          if c = CHR ''{'' then
            (if 10000 \<le> d then None
             else if take 1 (skip_ws cs) = ''}'' then Some (JVObj [], drop 1 (skip_ws cs))
             else parse_at PMembers (Suc d) cs)
          else if c = CHR ''['' then
            (if 10000 \<le> d then None
             else if take 1 (skip_ws cs) = '']'' then Some (JVArr [], drop 1 (skip_ws cs))
             else parse_at PElems (Suc d) cs)
          else if c = dq then
            (case scan_string cs [] of None \<Rightarrow> None | Some (str, r) \<Rightarrow> Some (JVStr str, r))
          else if take 4 (c # cs) = ''true'' then Some (JVBool True, drop 3 cs)
          else if take 5 (c # cs) = ''false'' then Some (JVBool False, drop 4 cs)
          else if take 4 (c # cs) = ''null'' then Some (JVNull, drop 3 cs)
          else if c = CHR ''-'' \<or> byte_between 48 57 c then
            (case scan_number (c # cs) of None \<Rightarrow> None | Some (n, r) \<Rightarrow> Some (JVNum n, r))
          else None)"
| "parse_at PElems d s =
     (case parse_at PValue d s of
        None \<Rightarrow> None
      | Some (v, r) \<Rightarrow>
          (case skip_ws r of
             [] \<Rightarrow> None
           | c # r' \<Rightarrow>
               if c = CHR '','' \<and> length r' < length s then
                 (case parse_at PElems d r' of
                    None \<Rightarrow> None
                  | Some (JVArr vs, r'') \<Rightarrow> Some (JVArr (v # vs), r'')
                  | Some (_, r'') \<Rightarrow> None)
               else if c = CHR '']'' then Some (JVArr [v], r')
               else None))"
| "parse_at PMembers d s =
     (case skip_ws s of
        [] \<Rightarrow> None
      | c # cs \<Rightarrow>
          if c \<noteq> dq then None
          else (case scan_string cs [] of
                  None \<Rightarrow> None
                | Some (k, r) \<Rightarrow>
                    (case skip_ws r of
                       [] \<Rightarrow> None
                     | c2 # r2 \<Rightarrow>
                         if c2 \<noteq> CHR '':'' then None
                         else (case parse_at PValue d r2 of
                                 None \<Rightarrow> None
                               | Some (v, r3) \<Rightarrow>
                                   (case skip_ws r3 of
                                      [] \<Rightarrow> None
                                    | c3 # r4 \<Rightarrow>
                                        if c3 = CHR '','' \<and> length r4 < length s then
                                          (case parse_at PMembers d r4 of
                                             None \<Rightarrow> None
                                           | Some (JVObj kvs, r5) \<Rightarrow> Some (JVObj ((k, v) # kvs), r5)
                                           | Some (_, r5) \<Rightarrow> None)
                                        else if c3 = CHR ''}'' then Some (JVObj [(k, v)], r4)
                                        else None)))))"
  by pat_completeness auto
termination
proof (relation "measure (\<lambda>(m, d, s). 2 * length s + (case m of PValue \<Rightarrow> 0 | _ \<Rightarrow> 1))", goal_cases)
  case 1 show ?case by simp
next
  case (2 d s c cs)
  have "length (c # cs) \<le> length s" using 2 by (metis length_dropWhile_le)
  then show ?case by simp
next
  case (3 d s c cs)
  have "length (c # cs) \<le> length s" using 3 by (metis length_dropWhile_le)
  then show ?case by simp
next
  case 4 then show ?case by simp
next
  case 5 then show ?case by simp
next
  case 6
  have dw: "dropWhile P xs = c # ys \<Longrightarrow> length ys < length xs" for P xs c and ys :: "'a list"
    by (metis length_Cons length_dropWhile_le less_eq_Suc_le)
  from 6 show ?case by (auto dest!: dw scan_string_shorter)
next
  case 7 then show ?case by simp
qed


text \<open>
  \<open>checkValid\<close>, which \<open>json.Unmarshal\<close> runs before decoding: one value, then only
  white space.
\<close>

datatype jerror = SyntaxError | UnmarshalTypeError gostring

definition check_valid :: "gostring \<Rightarrow> jerror + jvalue" where
  "check_valid s =
     (case parse_at PValue 0 s of
        None \<Rightarrow> Inl SyntaxError
      | Some (v, r) \<Rightarrow> if skip_ws r \<noteq> [] then Inl SyntaxError else Inr v)"

text \<open>
  The value tree the decoder builds from what \<open>json.Marshal\<close> writes for a \<open>json\<close>
  value (keys in sorted order), its nesting depth, and the condition that all its strings
  and keys are valid UTF-8.
\<close>

function jv_of :: "json \<Rightarrow> jvalue" where
  "jv_of (JString s) = JVStr s"
| "jv_of (JArray vs) = JVArr (map jv_of vs)"
| "jv_of (JObject kvs) = JVObj (map (\<lambda>(k, v). (k, jv_of v)) (sort_key fst kvs))"
  by pat_completeness auto
termination
proof (relation "measure size")
  fix kvs :: "(gostring \<times> json) list" and kv k v
  assume "kv \<in> set (sort_key fst kvs)" and "(k, v) = kv"
  then have "(k, v) \<in> set kvs" by simp
  then show "(v, JObject kvs) \<in> measure size"
    by (induction kvs) (auto simp: size_prod_simp)
qed (auto intro!: le_imp_less_Suc size_list_estimation')

fun json_depth :: "json \<Rightarrow> nat" where
  "json_depth (JString s) = 0"
| "json_depth (JArray vs) = Suc (foldr max (map json_depth vs) 0)"
| "json_depth (JObject kvs) = Suc (foldr max (map (\<lambda>(k, v). json_depth v) kvs) 0)"

fun json_ok :: "json \<Rightarrow> bool" where
  "json_ok (JString s) = utf8_valid s"
| "json_ok (JArray vs) = list_all json_ok vs"
| "json_ok (JObject kvs) = list_all (\<lambda>(k, v). utf8_valid k \<and> json_ok v) kvs"

declare parse_at.simps [simp del]

lemma parse_at_consumes: "parse_at m d s = Some (v, r) \<Longrightarrow> length r < length s"
proof (induction m d s arbitrary: v r rule: parse_at.induct)
  case (1 d s)
  have dw: "\<And>xs. length (skip_ws xs) \<le> length xs" by (rule length_dropWhile_le)
  show ?case
  proof (cases "skip_ws s")
    case Nil then show ?thesis
      using "1.prems" by (subst (asm) parse_at.simps) (simp only: Nil list.case option.distinct)
  next
    case (Cons c cs)
    then have lc: "length cs < length s" using dw [of s] by simp
    have sk: "length (drop 1 (skip_ws cs)) < length s" using dw [of cs] lc by simp
    show ?thesis
      using "1.prems" "1.IH"(1) [OF Cons] "1.IH"(2) [OF Cons] lc sk scan_string_shorter [of cs "[]"]
        scan_number_shorter [of "c # cs"]
      by (subst (asm) parse_at.simps) (simp only: Cons list.case, auto simp del: parse_at.simps split: if_splits option.splits prod.splits)
  qed
next
  case (2 d s)
  have dw: "\<And>xs. length (skip_ws xs) \<le> length xs" by (rule length_dropWhile_le)
  show ?case
  proof (cases "parse_at PValue d s")
    case None then show ?thesis
      using trans [OF parse_at.simps(2) [symmetric, where d = d and s = s] "2.prems"] by (simp del: parse_at.simps)
  next
    case (Some p)
    obtain v0 r0 where p: "parse_at PValue d s = Some (v0, r0)" using Some by (cases p) auto
    have l0: "length r0 < length s" using "2.IH"(1) [OF p] .
    note u = trans [OF parse_at.simps(2) [symmetric, where d = d and s = s] "2.prems"]
    show ?thesis
      using u p l0 dw [of r0] "2.IH"(2) [OF p refl]
      by (auto simp del: parse_at.simps split: list.splits if_splits option.splits jvalue.splits)
  qed
next
  case (3 d s)
  have dw: "\<And>xs. length (skip_ws xs) \<le> length xs" by (rule length_dropWhile_le)
  note u = trans [OF parse_at.simps(3) [symmetric, where d = d and s = s] "3.prems"]
  show ?case
    using u "3.IH" dw [of s] scan_string_shorter
    by (auto simp del: parse_at.simps split: list.splits if_splits option.splits jvalue.splits)
      (fastforce dest: skip_ws_Cons_shorter)+
qed

lemma foldr_max_ge: "x \<in> set xs \<Longrightarrow> x \<le> foldr max xs (0::nat)"
  by (induction xs) auto

lemma json_encode_start: "\<exists>c t. json_encode j = c # t \<and> (c = dq \<or> c = CHR ''['' \<or> c = CHR ''{'')"
  by (cases j) (auto simp: json_quote_def)

lemma skip_ws_json_encode [simp]: "skip_ws (json_encode j @ r) = json_encode j @ r"
  using json_encode_start [of j] by (auto simp: dq_def)

lemma json_encode_head: "json_encode j = c # t \<Longrightarrow> \<not> json_ws c \<and> c \<noteq> CHR '']'' \<and> c \<noteq> CHR ''}''"
  using json_encode_start [of j] by (auto simp: dq_def)

lemma skip_ws_json_quote [simp]: "skip_ws (json_quote k @ r) = json_quote k @ r"
  by (simp add: json_quote_def dq_def)


lemma join_with_Cons: "join_with sep (x # xs) = x @ (if xs = [] then [] else sep @ join_with sep xs)"
  by (cases xs) auto

lemma parse_elems:
  assumes "\<And>v r. v \<in> set vs \<Longrightarrow> parse_at PValue d (json_encode v @ r) = Some (jv_of v, r)" and "vs \<noteq> []"
  shows "parse_at PElems d (join_with '','' (map json_encode vs) @ CHR '']'' # r) = Some (JVArr (map jv_of vs), r)"
  using assms
proof (induction vs)
  case Nil then show ?case by simp
next
  case (Cons v vs)
  have pv: "parse_at PValue d (json_encode v @ t) = Some (jv_of v, t)" for t using Cons.prems(1) by simp
  show ?case
  proof (cases "vs = []")
    case True
    then show ?thesis using pv [of "CHR '']'' # r"] by (subst parse_at.simps(2)) simp
  next
    case False
    let ?rest = "join_with '','' (map json_encode vs) @ CHR '']'' # r"
    have ih: "parse_at PElems d ?rest = Some (JVArr (map jv_of vs), r)" using Cons.IH Cons.prems(1) False by simp
    show ?thesis using False pv [of "CHR '','' # ?rest"] ih by (subst parse_at.simps(2)) (simp add: join_with_Cons)
  qed
qed

lemma parse_members:
  assumes "\<And>k v r. (k, v) \<in> set kvs \<Longrightarrow> utf8_valid k \<and> parse_at PValue d (json_encode v @ r) = Some (jv_of v, r)"
    and "kvs \<noteq> []"
  shows "parse_at PMembers d (join_with '','' (map (\<lambda>(k, v). json_quote k @ '':'' @ json_encode v) kvs) @ CHR ''}'' # r) =
           Some (JVObj (map (\<lambda>(k, v). (k, jv_of v)) kvs), r)"
  using assms
proof (induction kvs)
  case Nil then show ?case by simp
next
  case (Cons kv kvs)
  obtain k v where kv: "kv = (k, v)" by (cases kv)
  have uk: "utf8_valid k" and pv: "parse_at PValue d (json_encode v @ t) = Some (jv_of v, t)" for t
    using Cons.prems(1) kv by auto
  have sq: "scan_string (json_escape k @ dq # t) [] = Some (k, t)" for t using scan_string_quote [OF uk] by simp
  have nd: "dq \<noteq> CHR '' '' \<and> dq \<noteq> CHR 0x09 \<and> dq \<noteq> CHR 0x0A \<and> dq \<noteq> CHR 0x0D" by (simp add: dq_def)
  show ?case
  proof (cases "kvs = []")
    case True
    then show ?thesis using pv [of "CHR ''}'' # r"] sq nd kv by (subst parse_at.simps(3)) (simp add: json_quote_def)
  next
    case False
    let ?rest = "join_with '','' (map (\<lambda>(k, v). json_quote k @ '':'' @ json_encode v) kvs) @ CHR ''}'' # r"
    have ih: "parse_at PMembers d ?rest = Some (JVObj (map (\<lambda>(k, v). (k, jv_of v)) kvs), r)"
      using Cons.prems(1) False by (intro Cons.IH) auto
    show ?thesis using False pv [of "CHR '','' # ?rest"] ih sq nd kv
      by (subst parse_at.simps(3)) (simp add: join_with_Cons json_quote_def)
  qed
qed
lemma parse_json_encode:
  "json_ok j \<Longrightarrow> d + json_depth j \<le> 10000 \<Longrightarrow> parse_at PValue d (json_encode j @ r) = Some (jv_of j, r)"
proof (induction j arbitrary: d r rule: json_encode.induct)
  case (1 s)
  have "scan_string (json_escape s @ dq # r) [] = Some (s, r)" using scan_string_quote "1.prems"(1) by simp
  then show ?case by (subst parse_at.simps(1)) (simp add: json_quote_def dq_def)
next
  case (2 vs)
  have d: "\<not> 10000 \<le> d" using "2.prems"(2) by simp
  show ?case
  proof (cases vs)
    case Nil then show ?thesis using d by (subst parse_at.simps(1)) simp
  next
    case (Cons v vs')
    have "parse_at PValue (Suc d) (json_encode v @ t) = Some (jv_of v, t)" if "v \<in> set vs" for v t
    proof (rule "2.IH" [OF that])
      show "json_ok v" using "2.prems"(1) that by (simp add: list_all_iff)
      show "Suc d + json_depth v \<le> 10000"
        using "2.prems"(2) foldr_max_ge [of "json_depth v" "map json_depth vs"] that by simp
    qed
    then have "parse_at PElems (Suc d) (join_with '','' (map json_encode vs) @ CHR '']'' # r) = Some (JVArr (map jv_of vs), r)"
      using Cons by (intro parse_elems) auto
    moreover obtain c t where ct: "json_encode v = c # t" using json_encode_start [of v] by blast
    ultimately show ?thesis using d Cons json_encode_head [OF ct] by (subst parse_at.simps(1)) (simp add: join_with_Cons ct)
  qed
next
  case (3 kvs)
  have d: "\<not> 10000 \<le> d" using "3.prems"(2) by simp
  show ?case
  proof (cases "sort_key fst kvs")
    case Nil then show ?thesis using d by (subst parse_at.simps(1)) simp
  next
    case (Cons kv kvs')
    have "utf8_valid k \<and> parse_at PValue (Suc d) (json_encode v @ t) = Some (jv_of v, t)"
      if "(k, v) \<in> set (sort_key fst kvs)" for k v t
    proof -
      have m: "(k, v) \<in> set kvs" using that by simp
      have "parse_at PValue (Suc d) (json_encode v @ t) = Some (jv_of v, t)"
      proof (rule "3.IH" [OF that refl])
        show "json_ok v" using "3.prems"(1) m by (auto simp: list_all_iff)
        show "Suc d + json_depth v \<le> 10000"
          using "3.prems"(2) foldr_max_ge [of "json_depth v" "map (\<lambda>(k, v). json_depth v) kvs"] m by force
      qed
      moreover have "utf8_valid k" using "3.prems"(1) m by (auto simp: list_all_iff)
      ultimately show ?thesis by simp
    qed
    then have "parse_at PMembers (Suc d)
        (join_with '','' (map (\<lambda>(k, v). json_quote k @ '':'' @ json_encode v) (sort_key fst kvs)) @ CHR ''}'' # r) =
        Some (JVObj (map (\<lambda>(k, v). (k, jv_of v)) (sort_key fst kvs)), r)"
      using Cons by (intro parse_members) auto
    then show ?thesis using d Cons by (subst parse_at.simps(1)) (simp add: join_with_Cons json_quote_def dq_def split: prod.splits)
  qed
qed
lemma foldr_max_le: "\<forall>x\<in>set xs. x \<le> n \<Longrightarrow> foldr max xs 0 \<le> (n :: nat)"
  by (induction xs) auto

lemma check_valid_error: "check_valid s = Inl e \<Longrightarrow> e = SyntaxError"
  by (simp add: check_valid_def split: option.splits prod.splits if_splits)

lemma check_valid_json_encode:
  "json_ok j \<Longrightarrow> json_depth j \<le> 10000 \<Longrightarrow> check_valid (json_encode j) = Inr (jv_of j)"
  using parse_json_encode [of j 0 "[]"] by (simp add: check_valid_def)

end
