(* ===== verification/TLSConfigJSON.thy ===== *)
theory TLSConfigJSON
  imports GoJSON TLSPolicy
begin

text \<open>
  \<open>json.Unmarshal([]byte(v), &res)\<close> in \<open>getTLSConfig\<close> (line 142), with \<open>res\<close> the
  struct \<open>tlsConfig\<close> of lines 133 to 136, as the Go library decodes it: \<open>checkValid\<close>
  (\<open>parse_at\<close> on the whole text, then only white space), then \<open>decodeState.value\<close> on the
  struct (\<open>decode_into\<close>).  The decoder's targets are the struct and its fields
  (\<open>target\<close>); an object key selects a field when it equals the field's name after Go's
  \<open>foldName\<close> (\<open>fold_name\<close>, \<open>field_of\<close>); other keys are skipped.  A string sets
  \<open>MinTLSVersion\<close>; an array refills the \<open>[]string\<close> \<open>Ciphers\<close> in place, element by
  element, through its backing array (\<open>d_arr\<close>, whose length is the slice's capacity, and
  \<open>d_len\<close>), as \<open>decodeState.array\<close> does; \<open>null\<close> leaves a string unchanged and sets the
  slice to nil; a value of any other JSON type is an \<open>UnmarshalTypeError\<close>, of which the
  first is returned after decoding ends (\<open>d_err\<close>).  \<open>go_unmarshal\<close> is the decoder the
  resolver's \<open>get_tls_config\<close> takes as its parameter.

  \<open>fold_name\<close> upper-cases ASCII letters and maps the two non-ASCII runes whose simple
  fold orbit contains an ASCII letter, U+017F (long s, to \<open>S\<close>) and U+212A (Kelvin sign, to
  \<open>K\<close>); every other non-ASCII rune folds in Go to a non-ASCII rune, so leaving its bytes
  unchanged decides the comparison with the ASCII field names exactly.
\<close>

fun fold_name :: "gostring \<Rightarrow> gostring" where
  "fold_name [] = []"
| "fold_name (c # cs) =
     (if byte_between 97 122 c then char_of (of_char c - 32 :: nat) # fold_name cs
      else if c = CHR 0xC5 \<and> take 1 cs = [CHR 0xBF] then CHR ''S'' # fold_name (drop 1 cs)
      else if c = CHR 0xE2 \<and> take 2 cs = [CHR 0x84, CHR 0xAA] then CHR ''K'' # fold_name (drop 2 cs)
      else c # fold_name cs)"

datatype target = TConfig | TMinTLSVersion | TCiphers | TCipherElem nat

definition field_of :: "gostring \<Rightarrow> target option" where
  "field_of k =
     (if fold_name k = fold_name ''MinTLSVersion'' then Some TMinTLSVersion
      else if fold_name k = fold_name ''Ciphers'' then Some TCiphers
      else None)"

record dstate =
  d_min :: gostring
  d_len :: nat
  d_arr :: "gostring list"
  d_err :: "jerror option"

abbreviation save_error :: "gostring \<Rightarrow> dstate \<Rightarrow> dstate" where
  "save_error kind st \<equiv> (if d_err st = None then st\<lparr>d_err := Some (UnmarshalTypeError kind)\<rparr> else st)"

abbreviation json_kind :: "jvalue \<Rightarrow> gostring" where
  "json_kind v \<equiv> (case v of JVNull \<Rightarrow> ''null'' | JVBool b \<Rightarrow> ''bool'' | JVNum n \<Rightarrow> ''number''
                   | JVStr s \<Rightarrow> ''string'' | JVArr vs \<Rightarrow> ''array'' | JVObj kvs \<Rightarrow> ''object'')"

function (sequential) decode_into :: "target \<Rightarrow> jvalue \<Rightarrow> dstate \<Rightarrow> dstate" where
  "decode_into TConfig (JVObj kvs) st =
     foldl (\<lambda>st (k, v). case field_of k of Some f \<Rightarrow> decode_into f v st | None \<Rightarrow> st) st kvs"
| "decode_into TConfig JVNull st = st"
| "decode_into TConfig v st = save_error (json_kind v) st"
| "decode_into TMinTLSVersion (JVStr s) st = st\<lparr>d_min := s\<rparr>"
| "decode_into TMinTLSVersion JVNull st = st"
| "decode_into TMinTLSVersion v st = save_error (json_kind v) st"
| "decode_into TCiphers JVNull st = st\<lparr>d_len := 0, d_arr := []\<rparr>"
| "decode_into TCiphers (JVArr vs) st =
     (let (st', n) =
        foldl (\<lambda>(st, i) v.
                 (decode_into (TCipherElem i) v
                    (st\<lparr>d_arr := (if length (d_arr st) \<le> i then d_arr st @ [[]] else d_arr st),
                        d_len := (if d_len st \<le> i then Suc i else d_len st)\<rparr>), Suc i))
              (st, 0) vs
      in if n = 0 then st'\<lparr>d_len := 0, d_arr := []\<rparr>
         else if n < d_len st' then st'\<lparr>d_len := n\<rparr> else st')"
| "decode_into TCiphers v st = save_error (json_kind v) st"
| "decode_into (TCipherElem i) (JVStr s) st = st\<lparr>d_arr := (d_arr st)[i := s]\<rparr>"
| "decode_into (TCipherElem i) JVNull st = st"
| "decode_into (TCipherElem i) v st = save_error (json_kind v) st"
  by pat_completeness auto
termination
proof (relation "measure (\<lambda>(t, v, st). case t of TConfig \<Rightarrow> 2 | TCipherElem i \<Rightarrow> 0 | _ \<Rightarrow> 1)")
  show "\<And>kvs st x xa y xb. field_of xa = Some xb \<Longrightarrow>
          ((xb, y, x), TConfig, JVObj kvs, st) \<in> measure (\<lambda>(t, v, st). case t of TConfig \<Rightarrow> 2 | TCipherElem i \<Rightarrow> 0 | _ \<Rightarrow> 1)"
    by (auto simp: field_of_def split: if_splits)
qed auto

text \<open>
  One iteration of the element loop of \<open>decodeState.array\<close>, and the slice invariant
  \<open>len <= cap\<close> of the decoded \<open>[]string\<close>.
\<close>

abbreviation cipher_elem_step :: "dstate \<times> nat \<Rightarrow> jvalue \<Rightarrow> dstate \<times> nat" where
  "cipher_elem_step \<equiv> \<lambda>(st, i) v.
     (decode_into (TCipherElem i) v
        (st\<lparr>d_arr := (if length (d_arr st) \<le> i then d_arr st @ [[]] else d_arr st),
            d_len := (if d_len st \<le> i then Suc i else d_len st)\<rparr>), Suc i)"

definition dstate_wf :: "dstate \<Rightarrow> bool" where
  "dstate_wf st \<longleftrightarrow> d_len st \<le> length (d_arr st)"

text \<open>
  \<open>d_view\<close>: the struct the state stands for, the string field and the first \<open>len\<close>
  elements of the slice's backing array.
\<close>

definition d_view :: "dstate \<Rightarrow> tls_config" where
  "d_view st = \<lparr>MinTLSVersion = d_min st, Ciphers = take (d_len st) (d_arr st)\<rparr>"

definition decode_start :: dstate where
  "decode_start = \<lparr>d_min = MinTLSVersion tls_config_zero, d_len = 0, d_arr = [], d_err = None\<rparr>"

definition go_unmarshal :: "gostring \<Rightarrow> jerror + tls_config" where
  "go_unmarshal s =
     (case check_valid s of
        Inl e \<Rightarrow> Inl e
      | Inr v \<Rightarrow>
          (let st = decode_into TConfig v decode_start in
           case d_err st of
             Some e \<Rightarrow> Inl e
           | None \<Rightarrow> Inr (d_view st)))"

text \<open>
  \<open>config_json c\<close>: the JSON object with the two fields of \<open>tlsConfig\<close>, as a writer of
  the configuration produces it.
\<close>

definition config_json :: "tls_config \<Rightarrow> json" where
  "config_json c = JObject [(''MinTLSVersion'', JString (MinTLSVersion c)), (''Ciphers'', JArray (map JString (Ciphers c)))]"

section \<open>Decoding\<close>

lemma field_of_names [simp]:
  "field_of ''Ciphers'' = Some TCiphers" "field_of ''MinTLSVersion'' = Some TMinTLSVersion"
  by (simp_all add: field_of_def byte_between_def char_of_eq_iff)

lemma cipher_loop_strings:
  "i \<le> length (d_arr st) \<Longrightarrow> i \<le> d_len st \<Longrightarrow>
   foldl cipher_elem_step (st, i) (map JVStr xs) =
     (st\<lparr>d_len := max (d_len st) (i + length xs),
         d_arr := take i (d_arr st) @ xs @ drop (i + length xs) (d_arr st)\<rparr>, i + length xs)"
proof (induction xs arbitrary: st i)
  case Nil then show ?case by (simp add: max_def)
next
  case (Cons x xs)
  have a: "(if length (d_arr st) \<le> i then d_arr st @ [[]] else d_arr st)[i := x] =
           take i (d_arr st) @ x # drop (Suc i) (d_arr st)"
  proof (cases "i = length (d_arr st)")
    case True then show ?thesis by simp
  next
    case False then have "i < length (d_arr st)" using Cons.prems by simp
    then show ?thesis by (simp add: upd_conv_take_nth_drop)
  qed
  have step: "cipher_elem_step (st, i) (JVStr x) =
      (st\<lparr>d_len := max (d_len st) (Suc i), d_arr := take i (d_arr st) @ x # drop (Suc i) (d_arr st)\<rparr>, Suc i)"
    using a by (simp add: max_def)
  let ?st = "st\<lparr>d_len := max (d_len st) (Suc i), d_arr := take i (d_arr st) @ x # drop (Suc i) (d_arr st)\<rparr>"
  have ih: "foldl cipher_elem_step (?st, Suc i) (map JVStr xs) =
     (?st\<lparr>d_len := max (d_len ?st) (Suc i + length xs),
         d_arr := take (Suc i) (d_arr ?st) @ xs @ drop (Suc i + length xs) (d_arr ?st)\<rparr>, Suc i + length xs)"
    by (rule Cons.IH) (use Cons.prems in simp_all)
  have "foldl cipher_elem_step (st, i) (map JVStr (x # xs)) =
      foldl cipher_elem_step (cipher_elem_step (st, i) (JVStr x)) (map JVStr xs)"
    by (simp only: list.map foldl_Cons)
  also have "\<dots> = foldl cipher_elem_step (?st, Suc i) (map JVStr xs)" by (simp only: step)
  also have "\<dots> = (st\<lparr>d_len := max (d_len st) (i + length (x # xs)),
         d_arr := take i (d_arr st) @ (x # xs) @ drop (i + length (x # xs)) (d_arr st)\<rparr>, i + length (x # xs))"
    using Cons.prems by (simp only: ih) (simp add: max_def min_def add.commute)
  finally show ?case .
qed

lemma decode_ciphers_strings:
  "d_len st = 0 \<Longrightarrow> d_arr st = [] \<Longrightarrow>
   decode_into TCiphers (JVArr (map JVStr xs)) st = st\<lparr>d_len := length xs, d_arr := xs\<rparr>"
  using cipher_loop_strings [of 0 st xs] by (cases xs) (simp_all add: Let_def)

lemma foldl_preserve: "(\<And>x s. x \<in> set xs \<Longrightarrow> P s \<Longrightarrow> P (f s x)) \<Longrightarrow> P s \<Longrightarrow> P (foldl f s xs)"
  by (induction xs arbitrary: s) auto

lemma decode_elem_shape:
  "d_len (decode_into (TCipherElem i) v st) = d_len st \<and> length (d_arr (decode_into (TCipherElem i) v st)) = length (d_arr st)"
  by (cases v) simp_all

lemma cipher_loop_wf:
  "i \<le> length (d_arr st) \<Longrightarrow> dstate_wf st \<Longrightarrow>
   snd (foldl cipher_elem_step (st, i) vs) \<le> length (d_arr (fst (foldl cipher_elem_step (st, i) vs))) \<and>
   dstate_wf (fst (foldl cipher_elem_step (st, i) vs))"
proof (induction vs arbitrary: st i)
  case Nil then show ?case by simp
next
  case (Cons v vs)
  let ?st = "st\<lparr>d_arr := (if length (d_arr st) \<le> i then d_arr st @ [[]] else d_arr st),
                 d_len := (if d_len st \<le> i then Suc i else d_len st)\<rparr>"
  have "Suc i \<le> length (d_arr (decode_into (TCipherElem i) v ?st)) \<and> dstate_wf (decode_into (TCipherElem i) v ?st)"
    using Cons.prems decode_elem_shape [of i v ?st] by (auto simp: dstate_wf_def)
  then show ?case using Cons.IH by simp
qed

lemma decode_into_wf: "dstate_wf st \<Longrightarrow> dstate_wf (decode_into t v st)"
proof (induction t v st rule: decode_into.induct)
  case (1 kvs st)
  have "dstate_wf (foldl (\<lambda>st (k, v). case field_of k of Some f \<Rightarrow> decode_into f v st | None \<Rightarrow> st) st kvs)"
  proof (rule foldl_preserve [where P = dstate_wf, OF _ "1.prems"])
    fix x s assume x: "x \<in> set kvs" and s: "dstate_wf s"
    obtain k v where kv: "x = (k, v)" by (cases x)
    have "dstate_wf (case field_of k of None \<Rightarrow> s | Some f \<Rightarrow> decode_into f v s)"
    proof (cases "field_of k")
      case None then show ?thesis using s by simp
    next
      case (Some f) then show ?thesis using "1.IH" [OF x kv [symmetric] Some s] by simp
    qed
    then show "dstate_wf (case x of (k, v) \<Rightarrow> case field_of k of None \<Rightarrow> s | Some f \<Rightarrow> decode_into f v s)"
      using kv by simp
  qed
  then show ?case by simp
next
  case (8 vs st)
  obtain st' n where f: "foldl cipher_elem_step (st, 0) vs = (st', n)" by fastforce
  have "n \<le> length (d_arr st') \<and> dstate_wf st'" using cipher_loop_wf [of 0 st vs] 8 f by simp
  then show ?case using f by (auto simp: dstate_wf_def Let_def)
qed (auto simp: dstate_wf_def)

lemma dstate_wf_start: "dstate_wf decode_start"
  by (simp add: dstate_wf_def decode_start_def)

text \<open>The decoded cipher list is the whole slice: \<open>Ciphers\<close> has \<open>len\<close> elements.\<close>

lemma go_unmarshal_ciphers_len:
  assumes "check_valid s = Inr v" and "go_unmarshal s = Inr c"
  shows "length (Ciphers c) = d_len (decode_into TConfig v decode_start)"
proof -
  have "dstate_wf (decode_into TConfig v decode_start)" by (rule decode_into_wf [OF dstate_wf_start])
  then show ?thesis using assms by (auto simp: go_unmarshal_def d_view_def dstate_wf_def Let_def split: option.splits)
qed

lemma trim_space_braces: "trim_space (CHR ''{'' # s @ [CHR ''}'']) = CHR ''{'' # s @ [CHR ''}'']"
proof -
  have l: "\<forall>p\<in>set space_seqs. p \<noteq> [] \<longrightarrow> hd p \<noteq> CHR ''{''"
    by (simp add: space_seqs_def ascii_space_bytes_def upt_conv_Cons)
  have r: "\<forall>p\<in>set (map rev space_seqs). p \<noteq> [] \<longrightarrow> hd p \<noteq> CHR ''}''"
    by (simp add: space_seqs_def ascii_space_bytes_def upt_conv_Cons char_of_eq_iff)
  have "trim_left_space (CHR ''{'' # s @ [CHR ''}'']) = CHR ''{'' # s @ [CHR ''}'']"
    by (simp only: trim_left_space_def trim_left_by_no_match [OF l])
  moreover have "trim_left_by (map rev space_seqs) (CHR ''}'' # rev s @ [CHR ''{'']) = CHR ''}'' # rev s @ [CHR ''{'']"
    by (simp only: trim_left_by_no_match [OF r])
  ultimately show ?thesis by (simp add: trim_space_def trim_right_space_def)
qed

lemma config_json_encode:
  "json_encode (config_json c) =
     CHR ''{'' # json_quote ''Ciphers'' @ '':['' @ join_with '','' (map json_quote (Ciphers c)) @ ''],'' @
     json_quote ''MinTLSVersion'' @ '':'' @ json_quote (MinTLSVersion c) @ [CHR ''}'']"
  by (simp add: config_json_def comp_def)

lemma go_unmarshal_config_json:
  assumes "utf8_valid (MinTLSVersion c)" "list_all utf8_valid (Ciphers c)"
  shows "go_unmarshal (json_encode (config_json c)) = Inr c"
proof -
  have ok: "json_ok (config_json c)" using assms by (simp add: config_json_def list_all_iff)
  have dp: "json_depth (config_json c) \<le> 10000"
    using foldr_max_le [of "map json_depth (map JString (Ciphers c))" 0] by (simp add: config_json_def)
  have jv: "jv_of (config_json c) =
      JVObj [(''Ciphers'', JVArr (map JVStr (Ciphers c))), (''MinTLSVersion'', JVStr (MinTLSVersion c))]"
    by (simp add: config_json_def comp_def)
  have d: "decode_into TCiphers (JVArr (map JVStr (Ciphers c))) decode_start =
      decode_start\<lparr>d_len := length (Ciphers c), d_arr := Ciphers c\<rparr>"
    by (rule decode_ciphers_strings) (simp_all add: decode_start_def)
  have "decode_into TConfig (jv_of (config_json c)) decode_start =
      (decode_into TCiphers (JVArr (map JVStr (Ciphers c))) decode_start)\<lparr>d_min := MinTLSVersion c\<rparr>"
    by (simp add: jv)
  then have e: "decode_into TConfig (jv_of (config_json c)) decode_start =
      decode_start\<lparr>d_len := length (Ciphers c), d_arr := Ciphers c, d_min := MinTLSVersion c\<rparr>"
    by (simp only: d)
  show ?thesis
    using check_valid_json_encode [OF ok dp]
    by (simp add: go_unmarshal_def e) (simp add: decode_start_def d_view_def)
qed

lemma json_encode_config_braces: "\<exists>x. json_encode (config_json c) = CHR ''{'' # x @ [CHR ''}'']"
  by (simp add: config_json_encode)

text \<open>
  C16: a configuration whose strings are valid UTF-8, written into \<open>CBAUTH_TLS_CONFIG\<close>
  as the JSON object of its two fields (\<open>json_encode\<close>, the encoder of \<open>Responders\<close>,
  which writes the keys in sorted order), is read back by \<open>getTLSConfig\<close> unchanged:
  checkValid accepts it, both keys select their fields, and the cipher array refills the
  empty slice exactly.
\<close>

theorem get_tls_config_roundtrip:
  assumes "utf8_valid (MinTLSVersion c)" and "list_all utf8_valid (Ciphers c)"
    and "env ''CBAUTH_TLS_CONFIG'' = json_encode (config_json c)"
  shows "get_tls_config go_unmarshal env = Inr c"
proof -
  obtain x where x: "json_encode (config_json c) = CHR ''{'' # x @ [CHR ''}'']"
    using json_encode_config_braces by blast
  show ?thesis
    using assms go_unmarshal_config_json [OF assms(1,2)] trim_space_braces [of x]
    by (simp add: get_tls_config_def x)
qed

theorem get_tls_config_roundtrip_witness:
  "get_tls_config go_unmarshal (\<lambda>_. json_encode (config_json \<lparr>MinTLSVersion = ''TLSv1.2'', Ciphers = [''high'', ''999'']\<rparr>)) =
     Inr \<lparr>MinTLSVersion = ''TLSv1.2'', Ciphers = [''high'', ''999'']\<rparr>"
  by (rule get_tls_config_roundtrip) simp_all

text \<open>
  C18: a non-blank configuration that is not one JSON value followed by JSON white space
  makes both resolvers panic, and always with a \<open>SyntaxError\<close>.  \<open>strings.TrimSpace\<close>
  and the JSON scanner disagree on what is blank: a vertical tab, a form feed, U+0085 or
  U+00A0 after the document pass the blank check but are rejected by the scanner.
\<close>

theorem tls_policy_invalid_json_panics:
  assumes "trim_space (env ''CBAUTH_TLS_CONFIG'') \<noteq> []" and "check_valid (env ''CBAUTH_TLS_CONFIG'') = Inl e"
  shows "cipher_suites go_unmarshal env = Inl (Panic SyntaxError) \<and>
         min_tls_version go_unmarshal env = Inl (Panic SyntaxError)"
proof -
  have "go_unmarshal (env ''CBAUTH_TLS_CONFIG'') = Inl SyntaxError"
    using assms(2) check_valid_error [OF assms(2)] by (simp add: go_unmarshal_def)
  then show ?thesis using assms(1) by (simp add: cipher_suites_def min_tls_version_def get_tls_config_def)
qed

theorem tls_policy_invalid_json_panics_witness:
  "cipher_suites go_unmarshal (\<lambda>_. ''{}'' @ [CHR 0x0B]) = Inl (Panic SyntaxError) \<and>
   min_tls_version go_unmarshal (\<lambda>_. ''{}'' @ [CHR 0x0B]) = Inl (Panic SyntaxError)"
proof (rule tls_policy_invalid_json_panics [where e = SyntaxError])
  show "trim_space ((\<lambda>_. ''{}'' @ [CHR 0x0B]) ''CBAUTH_TLS_CONFIG'') \<noteq> []"
    by (simp add: go_string_eval)
  show "check_valid ((\<lambda>_. ''{}'' @ [CHR 0x0B]) ''CBAUTH_TLS_CONFIG'') = Inl SyntaxError"
    by (simp add: check_valid_def parse_at.simps)
qed

section \<open>Decoder behaviours the spec does not describe\<close>

text \<open>
  A \<open>null\<close> document is accepted and yields the zero configuration; a field of the wrong
  JSON type is an error (so the resolvers panic); a repeated \<open>Ciphers\<close> key refills the
  slice in place, and a \<open>null\<close> element keeps the element an earlier array left in the
  backing array, so a stale entry reappears; keys select fields case-insensitively, with
  the long s and the Kelvin sign folding to \<open>S\<close> and \<open>K\<close>; unknown keys are ignored.
\<close>

lemma go_unmarshal_null: "go_unmarshal ''null'' = Inr tls_config_zero"
  by code_simp

lemma go_unmarshal_type_error: "go_unmarshal ''{\"Ciphers\": \"high\"}'' = Inl (UnmarshalTypeError ''string'')"
  by code_simp

lemma go_unmarshal_stale_element:
  "go_unmarshal ''{\"Ciphers\": [\"a\", \"b\"], \"Ciphers\": [\"x\"], \"Ciphers\": [null, null]}'' =
     Inr \<lparr>MinTLSVersion = [], Ciphers = [''x'', ''b'']\<rparr>"
  by code_simp

lemma field_of_folded:
  "field_of ''cIPHERS'' = Some TCiphers \<and> field_of (''Cipher'' @ [CHR 0xC5, CHR 0xBF]) = Some TCiphers \<and>
   field_of ''ciphersuites'' = None"
  by code_simp

lemma decode_unknown_field:
  "field_of k = None \<Longrightarrow> decode_into TConfig (JVObj (kvs @ (k, v) # kvs')) st = decode_into TConfig (JVObj (kvs @ kvs')) st"
  by simp

end
