(* ===== verification/Base64.thy ===== *)
theory Base64
  imports GoStrings
begin

text \<open>
  The Basic-Auth framing of \<open>net/http\<close> that \<open>Request.SetBasicAuth\<close> writes: the
  standard base64 alphabet of \<open>encoding/base64\<close> (\<open>StdEncoding\<close>, with \<open>=\<close> padding),
  \<open>basicAuth(user, pass)\<close>, and, as the reading side a server applies, Go's
  \<open>parseBasicAuth\<close> with its base64 decoder.  These are library code, modelled from the
  Go library's behaviour; \<open>base64_decode\<close> accepts exactly the canonical padded form
  the encoder produces plus any non-canonical trailing bits, as Go's lenient decoder does.
\<close>

definition b64_char :: "nat \<Rightarrow> char" where
  "b64_char n = char_of (if n < 26 then n + 65 else if n < 52 then n + 71
                         else if n < 62 then n - 4 else if n = 62 then 43 else (47::nat))"

definition b64_index :: "char \<Rightarrow> nat option" where
  "b64_index c =
     (let b = (of_char c :: nat) in
      if 65 \<le> b \<and> b \<le> 90 then Some (b - 65)
      else if 97 \<le> b \<and> b \<le> 122 then Some (b - 71)
      else if 48 \<le> b \<and> b \<le> 57 then Some (b + 4)
      else if b = 43 then Some 62
      else if b = 47 then Some 63
      else None)"

definition b64_quad :: "nat \<Rightarrow> gostring" where
  "b64_quad v = [b64_char (v div 262144), b64_char (v div 4096 mod 64),
                 b64_char (v div 64 mod 64), b64_char (v mod 64)]"

fun base64_encode :: "gostring \<Rightarrow> gostring" where
  "base64_encode (a # b # c # rest) =
     b64_quad (of_char a * 65536 + of_char b * 256 + of_char c) @ base64_encode rest"
| "base64_encode [a, b] = take 3 (b64_quad (of_char a * 65536 + of_char b * 256)) @ ''=''"
| "base64_encode [a] = take 2 (b64_quad (of_char a * 65536)) @ ''==''"
| "base64_encode [] = []"

text \<open>Decoding one group of four symbols into its 24-bit value, then into bytes.\<close>

definition b64_value :: "char list \<Rightarrow> nat option" where
  "b64_value cs = map_option (foldl (\<lambda>acc d. acc * 64 + d) 0) (those (map b64_index cs))"

definition bytes3 :: "nat \<Rightarrow> gostring" where
  "bytes3 v = [char_of (v div 65536), char_of (v div 256 mod 256), char_of (v mod 256)]"

fun base64_decode :: "gostring \<Rightarrow> gostring option" where
  "base64_decode [] = Some []"
| "base64_decode [a, b, c, d] =
     (if c = CHR ''='' \<and> d = CHR ''='' then map_option (\<lambda>v. take 1 (bytes3 (v * 4096))) (b64_value [a, b])
      else if d = CHR ''='' then map_option (\<lambda>v. take 2 (bytes3 (v * 64))) (b64_value [a, b, c])
      else map_option bytes3 (b64_value [a, b, c, d]))"
| "base64_decode (a # b # c # d # e # rest) =
     (case b64_value [a, b, c, d] of
        None \<Rightarrow> None
      | Some v \<Rightarrow> map_option (\<lambda>bs. bytes3 v @ bs) (base64_decode (e # rest)))"
| "base64_decode _ = None"

definition basic_auth :: "gostring \<Rightarrow> gostring \<Rightarrow> gostring" where
  "basic_auth username password = base64_encode (username @ '':'' @ password)"

text \<open>\<open>strings.Cut(s, ":")\<close>: the parts before and after the first colon.\<close>

definition cut_colon :: "gostring \<Rightarrow> (gostring \<times> gostring) option" where
  "cut_colon s = (if CHR '':'' \<in> set s
                  then Some (takeWhile (\<lambda>c. c \<noteq> CHR '':'') s, tl (dropWhile (\<lambda>c. c \<noteq> CHR '':'') s))
                  else None)"

definition parse_basic_auth :: "gostring \<Rightarrow> (gostring \<times> gostring) option" where
  "parse_basic_auth auth =
     (if length auth < 6 \<or> \<not> equal_fold (take 6 auth) ''Basic '' then None
      else case base64_decode (drop 6 auth) of None \<Rightarrow> None | Some c \<Rightarrow> cut_colon c)"

lemma b64_index_char [simp]: "n < 64 \<Longrightarrow> b64_index (b64_char n) = Some n"
  by (simp add: b64_char_def b64_index_def Let_def) presburger

lemma div_digit: "0 < m \<Longrightarrow> (v::nat) div (m * 64) * 64 + v div m mod 64 = v div m"
  by (simp only: div_mult2_eq div_mult_mod_eq)

lemma mult_add_div: "y < k \<Longrightarrow> ((x::nat) * k + y) div k = x"
  by simp

lemma mult_add_mod: "y < k \<Longrightarrow> ((x::nat) * k + y) mod k = y"
  by simp

lemma b64_value_quad:
  assumes "v < 16777216"
  shows "b64_value (b64_quad v) = Some v"
proof -
  have w: "v div 262144 < 64" using assms by simp
  have e1: "v div 262144 * 64 + v div 4096 mod 64 = v div 4096" using div_digit [of 4096 v] by simp
  have e2: "v div 4096 * 64 + v div 64 mod 64 = v div 64" using div_digit [of 64 v] by simp
  have e3: "v div 64 * 64 + v mod 64 = v" by simp
  show ?thesis using w by (simp add: b64_value_def b64_quad_def e1 e2 e3)
qed

lemma b64_value_quad3:
  assumes "v < 16777216"
  shows "b64_value (take 3 (b64_quad v)) = Some (v div 64)"
proof -
  have w: "v div 262144 < 64" using assms by simp
  have e1: "v div 262144 * 64 + v div 4096 mod 64 = v div 4096" using div_digit [of 4096 v] by simp
  have e2: "v div 4096 * 64 + v div 64 mod 64 = v div 64" using div_digit [of 64 v] by simp
  show ?thesis using w by (simp add: b64_value_def b64_quad_def e1 e2)
qed

lemma b64_value_quad2:
  assumes "v < 16777216"
  shows "b64_value (take 2 (b64_quad v)) = Some (v div 4096)"
proof -
  have w: "v div 262144 < 64" using assms by simp
  have e1: "v div 262144 * 64 + v div 4096 mod 64 = v div 4096" using div_digit [of 4096 v] by simp
  show ?thesis using w by (simp add: b64_value_def b64_quad_def e1)
qed

lemma bytes3_nat:
  assumes "x < 256" and "y < 256" and "z < 256"
  shows "bytes3 (x * 65536 + y * 256 + z) = [char_of x, char_of y, char_of z]"
proof -
  have v: "x * 65536 + y * 256 + z = (x * 256 + y) * 256 + z" by simp
  have d0: "(x * 65536 + y * 256 + z) div 256 = x * 256 + y"
    unfolding v using assms(3) by (rule mult_add_div)
  have d1: "(x * 65536 + y * 256 + z) div 65536 = x"
    using d0 assms(2) by (simp add: div_mult2_eq [of _ 256 256, simplified] mult_add_div)
  have d2: "(x * 65536 + y * 256 + z) div 256 mod 256 = y"
    using d0 assms(2) by (simp add: mult_add_mod)
  have d3: "(x * 65536 + y * 256 + z) mod 256 = z"
    unfolding v using assms(3) by (rule mult_add_mod)
  show ?thesis by (simp add: bytes3_def d1 d2 d3)
qed

lemma b64_char_not_pad [simp]: "n < 64 \<Longrightarrow> b64_char n \<noteq> CHR ''=''"
  by (simp add: b64_char_def char_of_eq_iff take_bit_eq_mod) arith

lemma b64_quad_pad [simp]:
  "v < 16777216 \<Longrightarrow> b64_quad v ! 2 \<noteq> CHR ''=''"
  "v < 16777216 \<Longrightarrow> b64_quad v ! 3 \<noteq> CHR ''=''"
  by (simp_all add: b64_quad_def)

lemma base64_encode_Nil_iff [simp]: "base64_encode s = [] \<longleftrightarrow> s = []"
  by (induction s rule: base64_encode.induct) (simp_all add: b64_quad_def)

lemma base64_decode_quad_Cons:
  assumes "v < 16777216" and "r \<noteq> []"
  shows "base64_decode (b64_quad v @ r) = map_option (\<lambda>bs. bytes3 v @ bs) (base64_decode r)"
proof -
  obtain e r' where r: "r = e # r'" using assms(2) by (cases r) auto
  show ?thesis using b64_value_quad [OF assms(1)] by (simp add: r b64_quad_def)
qed

theorem base64_roundtrip: "base64_decode (base64_encode s) = Some s"
proof (induction s rule: base64_encode.induct)
  case (1 a b c rest)
  let ?v = "(of_char a * 65536 + of_char b * 256 + of_char c :: nat)"
  have lt: "?v < 16777216" using nat_of_char_less_256 [of a] nat_of_char_less_256 [of b]
    nat_of_char_less_256 [of c] by linarith
  have b3: "bytes3 ?v = [a, b, c]"
    by (simp add: bytes3_nat nat_of_char_less_256)
  show ?case
  proof (cases "rest = []")
    case True
    then show ?thesis using b64_value_quad [OF lt] lt b3 by (simp add: b64_quad_def)
  next
    case False
    then show ?thesis using 1 b3 by (simp add: base64_decode_quad_Cons [OF lt])
  qed
next
  case (2 a b)
  let ?v = "(of_char a * 65536 + of_char b * 256 :: nat)"
  have lt: "?v < 16777216" using nat_of_char_less_256 [of a] nat_of_char_less_256 [of b] by linarith
  have m: "?v div 64 * 64 = ?v" by simp
  have b3: "bytes3 ?v = [a, b, char_of (0::nat)]"
    using bytes3_nat [of "of_char a" "of_char b" 0] by simp
  have e: "65536 * of_char a + 256 * of_char b = ?v" by simp
  have b3': "take 2 (bytes3 (65536 * of_char a + 256 * of_char b)) = [a, b]"
    unfolding e b3 by simp
  show ?case using b64_value_quad3 [OF lt] lt b3' m
    by (simp add: b64_quad_def)
next
  case (3 a)
  let ?v = "(of_char a * 65536 :: nat)"
  have lt: "?v < 16777216" using nat_of_char_less_256 [of a] by linarith
  have m: "?v div 4096 * 4096 = ?v" by simp
  have b3: "bytes3 ?v = [a, char_of (0::nat), char_of (0::nat)]"
    using bytes3_nat [of "of_char a" 0 0] by simp
  have e: "65536 * of_char a = ?v" by simp
  have b3': "take 1 (bytes3 (65536 * of_char a)) = [a]"
    unfolding e b3 by simp
  show ?case using b64_value_quad2 [OF lt] lt b3' m
    by (simp add: b64_quad_def)
qed simp

lemma cut_colon_append:
  "cut_colon (u @ CHR '':'' # p) =
     (if CHR '':'' \<in> set u then Some (takeWhile (\<lambda>c. c \<noteq> CHR '':'') u,
                                         tl (dropWhile (\<lambda>c. c \<noteq> CHR '':'') u) @ CHR '':'' # p)
      else Some (u, p))"
  by (induction u) (auto simp: cut_colon_def)

lemma takeWhile_colon_shorter:
  "CHR '':'' \<in> set u \<Longrightarrow> takeWhile (\<lambda>c. c \<noteq> CHR '':'') u \<noteq> u"
  by (induction u) auto

lemma parse_basic_auth_basic:
  "parse_basic_auth (''Basic '' @ basic_auth u p) = cut_colon (u @ CHR '':'' # p)"
  by (simp add: parse_basic_auth_def basic_auth_def base64_roundtrip equal_fold_def ascii_simps)

lemma parse_basic_auth_roundtrip:
  "parse_basic_auth (''Basic '' @ basic_auth u p) = Some (u, p) \<longleftrightarrow> CHR '':'' \<notin> set u"
  unfolding parse_basic_auth_basic by (simp add: cut_colon_append takeWhile_colon_shorter)

end
