(* ===== verification/Signer.thy ===== *)
theory Signer
  imports GoHeap Base64
begin

text \<open>
  The request signer, src/convenience.go lines 32 to 48.  A request is the part of
  \<open>http.Request\<close> the code reads or copies: the method, \<open>URL.Host\<close>, the \<open>Header\<close> and
  \<open>Trailer\<close> maps (heap addresses, \<open>None\<close> for a nil map), and the body and context, kept
  as opaque references.  An authenticator is the function \<open>GetHTTPServiceAuth\<close> from a
  \<open>host:port\<close> to an error or a (user, password) pair.  The process-wide \<open>Default\<close>
  authenticator is an explicit argument \<open>dflt\<close>, and \<open>WithAuthenticator\<close> (outside src/)
  is modelled from its contract: an absent authenticator means the default, and an
  absent default is \<open>ErrNotInitialized\<close>.  A signing call returns its error (\<open>None\<close> for a
  nil error) and the heap, or panics: \<open>Header.Set\<close> on a nil header map panics.
\<close>

record request =
  req_method :: gostring
  req_url_host :: gostring
  req_header :: "addr option"
  req_trailer :: "addr option"
  req_body :: nat
  req_ctx :: nat

type_synonym 'e authenticator = "gostring \<Rightarrow> 'e + (gostring \<times> gostring)"

datatype 'e cb_error = GoErr 'e | ErrNotInitialized

type_synonym 'e sign_result = "runtime_error panic + ('e cb_error option \<times> heap)"

definition resolve_authenticator ::
  "'e authenticator option \<Rightarrow> 'e authenticator option \<Rightarrow> 'e authenticator option" where
  "resolve_authenticator a dflt = (case a of None \<Rightarrow> dflt | Some x \<Rightarrow> Some x)"

definition with_authenticator ::
  "'e authenticator option \<Rightarrow> 'e authenticator option \<Rightarrow>
   ('e authenticator \<Rightarrow> heap \<Rightarrow> 'e sign_result) \<Rightarrow> heap \<Rightarrow> 'e sign_result" where
  "with_authenticator a dflt body h =
     (case resolve_authenticator a dflt of
        None \<Rightarrow> Inr (Some ErrNotInitialized, h)
      | Some a' \<Rightarrow> body a' h)"

text \<open>\<open>Request.SetBasicAuth\<close>: \<open>Header.Set("Authorization", "Basic " + basicAuth(u, p))\<close>.\<close>

definition set_basic_auth :: "request \<Rightarrow> gostring \<Rightarrow> gostring \<Rightarrow> heap \<Rightarrow> runtime_error panic + heap" where
  "set_basic_auth req username password h =
     (case header_set (req_header req) ''Authorization'' (''Basic '' @ basic_auth username password) h of
        Inl e \<Rightarrow> Inl (Panic e)
      | Inr h' \<Rightarrow> Inr h')"

text \<open>The closure passed to \<open>WithAuthenticator\<close> by \<open>SetRequestAuthVia\<close>.\<close>

definition sign_body :: "request \<Rightarrow> 'e authenticator \<Rightarrow> heap \<Rightarrow> 'e sign_result" where
  "sign_body req a h =
     (case a (req_url_host req) of
        Inl err \<Rightarrow> Inr (Some (GoErr err), h)
      | Inr (user, pwd) \<Rightarrow>
          (case set_basic_auth req user pwd h of
             Inl p \<Rightarrow> Inl p
           | Inr h' \<Rightarrow> Inr (None, h')))"

definition set_request_auth_via ::
  "request \<Rightarrow> 'e authenticator option \<Rightarrow> 'e authenticator option \<Rightarrow> heap \<Rightarrow> 'e sign_result" where
  "set_request_auth_via req a dflt h = with_authenticator a dflt (sign_body req) h"

definition set_request_auth :: "request \<Rightarrow> 'e authenticator option \<Rightarrow> heap \<Rightarrow> 'e sign_result" where
  "set_request_auth req dflt h = set_request_auth_via req None dflt h"

definition auth_value :: "gostring \<Rightarrow> gostring \<Rightarrow> gostring" where
  "auth_value u p = ''Basic '' @ basic_auth u p"

text \<open>
  A concrete request for the examples: a header map at address 0 holding
  \<open>Accept: */*\<close> (array at address 1), no trailer, and an authenticator that knows one
  \<open>host:port\<close>.
\<close>

definition example_heap :: heap where
  "example_heap =
     \<lparr>h_arrays = [(1, [''*/*''])],
      h_maps = [(0, [(''Accept'', \<lparr>s_arr = Some 1, s_off = 0, s_len = 1, s_cap = 1\<rparr>)])],
      h_next = 2\<rparr>"

definition example_request :: request where
  "example_request =
     \<lparr>req_method = ''GET'', req_url_host = ''127.0.0.1:9000'', req_header = Some 0,
      req_trailer = None, req_body = 0, req_ctx = 0\<rparr>"

definition example_auth :: "gostring authenticator" where
  "example_auth host =
     (if host = ''127.0.0.1:9000'' then Inr (''Administrator'', ''password'') else Inl ''unknown host'')"

lemma canonical_authorization [simp]: "canonical_mime_header_key ''Authorization'' = ''Authorization''"
  by (simp add: canonical_mime_header_key_def is_token_byte_def ascii_simps char_of_eq_iff Let_def)

lemma set_request_auth_via_unresolved:
  "resolve_authenticator a dflt = None \<Longrightarrow> set_request_auth_via req a dflt h = Inr (Some ErrNotInitialized, h)"
  by (simp add: set_request_auth_via_def with_authenticator_def)

lemma set_request_auth_via_error:
  "resolve_authenticator a dflt = Some f \<Longrightarrow> f (req_url_host req) = Inl e \<Longrightarrow>
   set_request_auth_via req a dflt h = Inr (Some (GoErr e), h)"
  by (simp add: set_request_auth_via_def with_authenticator_def sign_body_def)

lemma set_request_auth_via_nil:
  "resolve_authenticator a dflt = Some f \<Longrightarrow> f (req_url_host req) = Inr (u, p) \<Longrightarrow>
   req_header req = None \<Longrightarrow> set_request_auth_via req a dflt h = Inl (Panic AssignNilMap)"
  by (simp add: set_request_auth_via_def with_authenticator_def sign_body_def set_basic_auth_def header_set_nil)

lemma set_request_auth_via_ok:
  "resolve_authenticator a dflt = Some f \<Longrightarrow> f (req_url_host req) = Inr (u, p) \<Longrightarrow>
   req_header req = Some m \<Longrightarrow>
   set_request_auth_via req a dflt h =
     Inr (None, map_store m ''Authorization'' (one_slice (h_next h)) (snd (alloc_array [auth_value u p] h)))"
  by (simp add: set_request_auth_via_def with_authenticator_def sign_body_def set_basic_auth_def
      header_set_Some auth_value_def)

lemma set_request_auth_via_effect:
  assumes wf: "heap_wf h" and ok: "map_ok h (Some m)" and hd: "req_header req = Some m"
    and r: "resolve_authenticator a dflt = Some f" and cred: "f (req_url_host req) = Inr (u, p)"
  shows "\<exists>h'. set_request_auth_via req a dflt h = Inr (None, h') \<and> heap_wf h' \<and> map_ok h' (Some m) \<and>
           h_next h' = Suc (h_next h) \<and>
           header_view h' (Some m) = (header_view h (Some m))(''Authorization'' \<mapsto> [auth_value u p]) \<and>
           footprint h' (Some m) \<subseteq> footprint h (Some m) \<union> {h_next h} \<and>
           agree_below (min m (h_next h)) h h'"
proof -
  have hs: "header_set (Some m) ''Authorization'' (auth_value u p) h =
            Inr (map_store m ''Authorization'' (one_slice (h_next h)) (snd (alloc_array [auth_value u p] h)))"
    by (simp add: header_set_Some)
  show ?thesis
    using header_set_effect [OF wf ok hs] set_request_auth_via_ok [OF r cred hd] by simp
qed

lemma example_heap_wf [simp]: "heap_wf example_heap"
  by (simp add: example_heap_def heap_wf_def slice_ok_def)

lemma example_heap_next [simp]: "h_next example_heap = 2"
  by (simp add: example_heap_def)

lemma example_map_ok [simp]: "map_ok example_heap (Some 0)"
  by (simp add: example_heap_def map_ok_def)

text \<open>
  C6: when the authenticator yields credentials for the request's host, \<open>SetRequestAuthVia\<close>
  returns no error and the request's header map gains exactly one entry,
  \<open>Authorization: Basic base64(user:password)\<close>, replacing any previous one; the heap
  stays well formed; and a server's \<open>BasicAuth\<close> reads the credentials back exactly when
  the user name has no colon.
\<close>

theorem set_request_auth_via_sets_basic_auth:
  assumes "heap_wf h" and "map_ok h (Some m)" and "req_header req = Some m"
    and "resolve_authenticator a dflt = Some f" and "f (req_url_host req) = Inr (u, p)"
  shows "\<exists>h'. set_request_auth_via req a dflt h = Inr (None, h') \<and> heap_wf h' \<and>
           header_view h' (Some m) = (header_view h (Some m))(''Authorization'' \<mapsto> [''Basic '' @ basic_auth u p]) \<and>
           (parse_basic_auth (''Basic '' @ basic_auth u p) = Some (u, p) \<longleftrightarrow> CHR '':'' \<notin> set u)"
  using set_request_auth_via_effect [OF assms] parse_basic_auth_roundtrip [of u p]
  unfolding auth_value_def by blast

theorem set_request_auth_via_sets_basic_auth_witness:
  "\<exists>h'. set_request_auth_via example_request (Some example_auth) None example_heap = Inr (None, h') \<and>
        heap_wf h' \<and>
        header_view h' (Some 0) =
          (header_view example_heap (Some 0))(''Authorization'' \<mapsto>
             [''Basic '' @ basic_auth ''Administrator'' ''password'']) \<and>
        parse_basic_auth (''Basic '' @ basic_auth ''Administrator'' ''password'') = Some (''Administrator'', ''password'')"
  using set_request_auth_via_sets_basic_auth [of example_heap 0 example_request "Some example_auth" None
      example_auth "''Administrator''" "''password''"]
  by (simp add: example_request_def example_auth_def resolve_authenticator_def)

text \<open>
  C21: when the authenticator fails for the request's host, \<open>SetRequestAuthVia\<close> returns
  that error unchanged and touches nothing: the heap, and so every header, is as before.
\<close>

theorem set_request_auth_via_error_unchanged:
  assumes "resolve_authenticator a dflt = Some f" and "f (req_url_host req) = Inl e"
  shows "set_request_auth_via req a dflt h = Inr (Some (GoErr e), h)"
  using assms by (simp add: set_request_auth_via_def with_authenticator_def sign_body_def)

theorem set_request_auth_via_error_unchanged_witness:
  "set_request_auth_via (example_request\<lparr>req_url_host := ''10.0.0.1:8091''\<rparr>) (Some example_auth) None example_heap =
     Inr (Some (GoErr ''unknown host''), example_heap)"
  using set_request_auth_via_error_unchanged [of "Some example_auth" None example_auth
      "example_request\<lparr>req_url_host := ''10.0.0.1:8091''\<rparr>" "''unknown host''" example_heap]
  by (simp add: example_request_def example_auth_def resolve_authenticator_def)

text \<open>
  C22: signing a request whose \<open>Header\<close> map is nil directly with \<open>SetRequestAuth\<close> (a
  request built as a struct literal rather than by \<open>http.NewRequest\<close>) panics with an
  assignment to a nil map once the authenticator has produced credentials.
\<close>

theorem set_request_auth_nil_header_panics:
  assumes "req_header req = None" and "dflt = Some f" and "f (req_url_host req) = Inr (u, p)"
  shows "set_request_auth req dflt h = Inl (Panic AssignNilMap)"
  using assms by (simp add: set_request_auth_def set_request_auth_via_nil resolve_authenticator_def)

theorem set_request_auth_nil_header_panics_witness:
  "set_request_auth (example_request\<lparr>req_header := None\<rparr>) (Some example_auth) example_heap = Inl (Panic AssignNilMap)"
  using set_request_auth_nil_header_panics [of "example_request\<lparr>req_header := None\<rparr>" "Some example_auth"
      example_auth "''Administrator''" "''password''" example_heap]
  by (simp add: example_request_def example_auth_def)

end
