(* ===== verification/Transport.thy ===== *)
theory Transport
  imports Signer
begin

text \<open>
  The request duplicator and the authenticating transport, src/convenience.go lines 50
  to 90.  \<open>duplicate_strings_slice\<close> is \<open>append([]string{}, in...)\<close>: a fresh empty slice
  literal extended with the elements, which allocates a fresh backing array whenever
  there is an element.  \<open>dup_headers\<close> makes a fresh map and stores a duplicated slice
  under every key of the source; Go ranges over a map in an unspecified order, here the
  order of the association list (the result does not depend on it, keys being distinct).
  \<open>dup_request\<close> copies the request struct and replaces its header and trailer.
  The wrapped transport (\<open>slave\<close>) is a parameter: a function of the request it is given
  and of the heap at the time of the call, whose result (response and error) is passed
  through unchanged.
\<close>

definition duplicate_strings_slice :: "slice \<Rightarrow> heap \<Rightarrow> slice \<times> heap" where
  "duplicate_strings_slice s h =
     (let (a0, h1) = alloc_array [] h
      in slice_append \<lparr>s_arr = Some a0, s_off = 0, s_len = 0, s_cap = 0\<rparr> (slice_values h1 s) h1)"

fun dup_headers_loop :: "hmap \<Rightarrow> addr \<Rightarrow> heap \<Rightarrow> heap" where
  "dup_headers_loop [] rv h = h"
| "dup_headers_loop ((k, v) # kvs) rv h =
     (let (v', h1) = duplicate_strings_slice v h in dup_headers_loop kvs rv (map_store rv k v' h1))"

definition dup_headers :: "addr option \<Rightarrow> heap \<Rightarrow> addr \<times> heap" where
  "dup_headers m h = (let (rv, h1) = alloc_map [] h in (rv, dup_headers_loop (map_entries h1 m) rv h1))"

definition dup_request :: "request \<Rightarrow> heap \<Rightarrow> request \<times> heap" where
  "dup_request req h =
     (let (hd, h1) = dup_headers (req_header req) h;
          (tr, h2) = dup_headers (req_trailer req) h1
      in (req\<lparr>req_header := Some hd, req_trailer := Some tr\<rparr>, h2))"

record ('e, 'r) round_tripper =
  rt_slave :: "request \<Rightarrow> heap \<Rightarrow> 'r"
  rt_a :: "'e authenticator option"

definition wrap_http_transport ::
  "(request \<Rightarrow> heap \<Rightarrow> 'r) \<Rightarrow> 'e authenticator option \<Rightarrow> ('e, 'r) round_tripper" where
  "wrap_http_transport transport a = \<lparr>rt_slave = transport, rt_a = a\<rparr>"

definition round_trip ::
  "('e, 'r) round_tripper \<Rightarrow> 'e authenticator option \<Rightarrow> request \<Rightarrow> heap \<Rightarrow>
   runtime_error panic + ('e cb_error + 'r)" where
  "round_trip rt dflt req h =
     (let (req', h1) = dup_request req h
      in case set_request_auth_via req' (rt_a rt) dflt h1 of
           Inl p \<Rightarrow> Inl p
         | Inr (Some err, h2) \<Rightarrow> Inr (Inl err)
         | Inr (None, h2) \<Rightarrow> Inr (Inr (rt_slave rt req' h2)))"

text \<open>The heap after duplicating the example's header map (see \<open>Signer\<close>).\<close>

definition example_dup_heap :: heap where
  "example_dup_heap =
     \<lparr>h_arrays = [(1, [''*/*'']), (3, []), (4, [''*/*''])],
      h_maps = [(0, [(''Accept'', \<lparr>s_arr = Some 1, s_off = 0, s_len = 1, s_cap = 1\<rparr>)]),
                (2, [(''Accept'', \<lparr>s_arr = Some 4, s_off = 0, s_len = 1, s_cap = 1\<rparr>)])],
      h_next = 5\<rparr>"

lemma duplicate_strings_slice_effect:
  assumes wf: "heap_wf h" and ok: "slice_ok h s" and d: "duplicate_strings_slice s h = (s', h')"
  shows "heap_wf h' \<and> slice_ok h' s' \<and> slice_values h' s' = slice_values h s \<and>
         agree_below (h_next h) h h' \<and> h_next h \<le> h_next h' \<and>
         set_option (s_arr s') \<subseteq> {h_next h..<h_next h'}"
proof -
  let ?h1 = "snd (alloc_array [] h)" and ?e = "\<lparr>s_arr = Some (h_next h), s_off = 0, s_len = 0, s_cap = 0\<rparr>"
  have ap: "slice_append ?e (slice_values ?h1 s) ?h1 = (s', h')"
    using d by (simp add: duplicate_strings_slice_def alloc_array_def)
  have wf1: "heap_wf ?h1" using wf by (rule heap_wf_alloc_array)
  have ag1: "agree_below (h_next h) h ?h1" by (rule agree_below_alloc_array)
  have sv: "slice_values ?h1 s = slice_values h s"
    using slice_frame [OF _ ag1] slice_ok_arr_lt [OF wf ok] by blast
  have eok: "slice_ok ?h1 ?e" and ev: "slice_values ?h1 ?e = []"
    using fresh_slice_alloc [of "[]" h] by simp_all
  have eff: "heap_wf h' \<and> slice_ok h' s' \<and> slice_values h' s' = slice_values h s"
    using slice_append_effect [OF wf1 eok ap] ev sv by simp
  have ag2: "agree_below (h_next h) ?h1 h'"
    using agree_below_slice_append [OF ap] by (simp add: heap_simps)
  have nx: "Suc (h_next h) \<le> h_next h'" using slice_append_next [OF ap] by (simp add: heap_simps)
  have "set_option (s_arr s') \<subseteq> {h_next h} \<union> {Suc (h_next h)..<h_next h'}"
    using slice_append_arr [OF ap] by (simp add: heap_simps)
  then have "set_option (s_arr s') \<subseteq> {h_next h..<h_next h'}" using nx by auto
  then show ?thesis using eff agree_below_trans [OF ag1 ag2] nx by simp
qed

lemma slices_frame:
  assumes "list_all (\<lambda>(k, s). slice_ok h s \<and> set_option (s_arr s) \<subseteq> {..<n}) kvs" and "agree_below n h h'"
  shows "list_all (\<lambda>(k, s). slice_ok h' s \<and> set_option (s_arr s) \<subseteq> {..<n}) kvs \<and>
         (\<forall>(k, s)\<in>set kvs. slice_values h' s = slice_values h s)"
  using assms slice_frame [of _ n h h'] by (fastforce simp: list_all_iff)

lemma dup_headers_loop_effect:
  assumes "heap_wf h" and "map_ok h (Some rv)" and "n0 \<le> rv" and "n0 \<le> h_next h"
    and "list_all (\<lambda>(k, s). slice_ok h s \<and> set_option (s_arr s) \<subseteq> {..<n0}) kvs"
  shows "heap_wf (dup_headers_loop kvs rv h) \<and> map_ok (dup_headers_loop kvs rv h) (Some rv) \<and>
         agree_below n0 h (dup_headers_loop kvs rv h) \<and> h_next h \<le> h_next (dup_headers_loop kvs rv h) \<and>
         header_view (dup_headers_loop kvs rv h) (Some rv) =
           foldl (\<lambda>m (k, s). m(k \<mapsto> slice_values h s)) (header_view h (Some rv)) kvs \<and>
         footprint (dup_headers_loop kvs rv h) (Some rv) \<subseteq>
           footprint h (Some rv) \<union> {h_next h..<h_next (dup_headers_loop kvs rv h)}"
  using assms
proof (induction kvs arbitrary: h)
  case Nil then show ?case by simp
next
  case (Cons kv kvs)
  obtain k v where kv: "kv = (k, v)" by fastforce
  obtain v' h1 where d: "duplicate_strings_slice v h = (v', h1)" by fastforce
  let ?h2 = "map_store rv k v' h1" and ?h' = "dup_headers_loop kvs rv (map_store rv k v' h1)"
  have vok: "slice_ok h v" and varr: "set_option (s_arr v) \<subseteq> {..<n0}"
    and rest: "list_all (\<lambda>(k, s). slice_ok h s \<and> set_option (s_arr s) \<subseteq> {..<n0}) kvs"
    using Cons.prems(5) kv by simp_all
  have e1: "heap_wf h1 \<and> slice_ok h1 v' \<and> slice_values h1 v' = slice_values h v \<and>
            agree_below (h_next h) h h1 \<and> h_next h \<le> h_next h1 \<and> set_option (s_arr v') \<subseteq> {h_next h..<h_next h1}"
    using duplicate_strings_slice_effect [OF Cons.prems(1) vok d] .
  have fp: "footprint h (Some rv) \<subseteq> {..<h_next h}" using Cons.prems(1,2) by (rule footprint_lt)
  have fr1: "header_view h1 (Some rv) = header_view h (Some rv) \<and> footprint h1 (Some rv) = footprint h (Some rv)"
    using view_frame [OF fp] e1 by blast
  have mok1: "map_ok h1 (Some rv)" using map_ok_agree [OF Cons.prems(1,2)] e1 by blast
  have wf2: "heap_wf ?h2" using heap_wf_map_store [of h1 rv v' k] e1 mok1 by (simp add: map_ok_def)
  have mok2: "map_ok ?h2 (Some rv)" using mok1 by (rule map_ok_store)
  have ag02: "agree_below n0 h ?h2"
    using agree_below_trans [OF agree_below_mono [OF Cons.prems(4)] agree_below_map_store [OF Cons.prems(3)]] e1
    by blast
  have view2: "header_view ?h2 (Some rv) = (header_view h (Some rv))(k \<mapsto> slice_values h v)"
    using fr1 e1 by (simp add: header_view_store)
  have fp2: "footprint ?h2 (Some rv) \<subseteq> footprint h (Some rv) \<union> {h_next h..<h_next ?h2}"
    using footprint_store [of rv k v' h1] fr1 e1 by (auto simp: heap_simps)
  have nx2: "h_next h \<le> h_next ?h2" using e1 by (simp add: heap_simps)
  have rest2: "list_all (\<lambda>(k, s). slice_ok ?h2 s \<and> set_option (s_arr s) \<subseteq> {..<n0}) kvs"
    and sv2: "\<forall>(k, s)\<in>set kvs. slice_values ?h2 s = slice_values h s"
    using slices_frame [OF rest ag02] by blast+
  have n02: "n0 \<le> h_next ?h2" using Cons.prems(4) nx2 by linarith
  have ih: "heap_wf ?h' \<and> map_ok ?h' (Some rv) \<and> agree_below n0 ?h2 ?h' \<and> h_next ?h2 \<le> h_next ?h' \<and>
            header_view ?h' (Some rv) = foldl (\<lambda>m (k, s). m(k \<mapsto> slice_values ?h2 s)) (header_view ?h2 (Some rv)) kvs \<and>
            footprint ?h' (Some rv) \<subseteq> footprint ?h2 (Some rv) \<union> {h_next ?h2..<h_next ?h'}"
    using Cons.IH [OF wf2 mok2 Cons.prems(3) n02 rest2] .
  have fold: "foldl (\<lambda>m (k, s). m(k \<mapsto> slice_values ?h2 s)) M kvs =
              foldl (\<lambda>m (k, s). m(k \<mapsto> slice_values h s)) M kvs" for M
    by (rule foldl_cong) (use sv2 in auto)
  have lp: "dup_headers_loop (kv # kvs) rv h = ?h'" using kv d by simp
  have "{h_next h..<h_next ?h2} \<union> {h_next ?h2..<h_next ?h'} \<subseteq> {h_next h..<h_next ?h'}"
    using ih nx2 by auto
  then have "footprint ?h' (Some rv) \<subseteq> footprint h (Some rv) \<union> {h_next h..<h_next ?h'}"
    using ih fp2 by blast
  moreover have "header_view ?h' (Some rv) =
      foldl (\<lambda>m (k, s). m(k \<mapsto> slice_values h s)) (header_view h (Some rv)) (kv # kvs)"
  proof -
    have "foldl (\<lambda>m (k, s). m(k \<mapsto> slice_values h s)) (header_view h (Some rv)) (kv # kvs) =
          foldl (\<lambda>m (k, s). m(k \<mapsto> slice_values h s)) ((header_view h (Some rv))(k \<mapsto> slice_values h v)) kvs"
      by (simp only: foldl_Cons kv prod.case)
    then show ?thesis using ih view2 fold by simp
  qed
  moreover have "agree_below n0 h ?h'" using agree_below_trans [OF ag02] ih by blast
  moreover have "h_next h \<le> h_next ?h'" using ih nx2 by linarith
  ultimately show ?case unfolding lp using ih by blast
qed

lemma map_entries_wf:
  assumes "heap_wf h"
  shows "distinct (map fst (map_entries h m)) \<and>
         list_all (\<lambda>(k, s). slice_ok h s \<and> set_option (s_arr s) \<subseteq> {..<h_next h}) (map_entries h m)"
proof (cases "\<exists>a kvs. m = Some a \<and> map_of (h_maps h) a = Some kvs")
  case True
  then obtain a kvs where m: "m = Some a" and kvs: "map_of (h_maps h) a = Some kvs" by blast
  have "distinct (map fst kvs) \<and> list_all (\<lambda>(k, s). slice_ok h s) kvs" using heap_wf_map [OF assms kvs] by blast
  then show ?thesis using m kvs slice_ok_arr_lt [OF assms] by (fastforce simp: map_entries_def list_all_iff)
next
  case False
  then have "map_entries h m = []" by (auto simp: map_entries_def split: option.split)
  then show ?thesis by simp
qed

lemma dup_headers_effect:
  assumes wf: "heap_wf h" and ok: "map_ok h m" and d: "dup_headers m h = (rv, h')"
  shows "heap_wf h' \<and> map_ok h' (Some rv) \<and> agree_below (h_next h) h h' \<and> rv = h_next h \<and>
         h_next h < h_next h' \<and> header_view h' (Some rv) = header_view h m \<and>
         footprint h' (Some rv) \<subseteq> {h_next h..<h_next h'}"
proof -
  let ?h1 = "snd (alloc_map [] h)" and ?kvs = "map_entries h m"
  have ag1: "agree_below (h_next h) h ?h1" by (rule agree_below_alloc_map)
  have fp: "footprint h m \<subseteq> {..<h_next h}" using wf ok by (rule footprint_lt)
  have me: "map_entries ?h1 m = ?kvs" using view_frame [OF fp ag1] by blast
  have "dup_headers m h = (h_next h, dup_headers_loop ?kvs (h_next h) ?h1)"
    by (simp only: dup_headers_def Let_def case_prod_beta alloc_map_simps(1) me fst_conv snd_conv)
  then have rv: "rv = h_next h" and h': "h' = dup_headers_loop ?kvs (h_next h) ?h1"
    using d by simp_all
  have wfe: "distinct (map fst ?kvs) \<and>
             list_all (\<lambda>(k, s). slice_ok h s \<and> set_option (s_arr s) \<subseteq> {..<h_next h}) ?kvs"
    using map_entries_wf [OF wf] .
  have src: "list_all (\<lambda>(k, s). slice_ok ?h1 s \<and> set_option (s_arr s) \<subseteq> {..<h_next h}) ?kvs"
    and sv: "\<forall>(k, s)\<in>set ?kvs. slice_values ?h1 s = slice_values h s"
    using slices_frame [OF _ ag1] wfe by blast+
  have wf1: "heap_wf ?h1" using heap_wf_alloc_map [OF wf] by simp
  have ok1: "map_ok ?h1 (Some (h_next h))" by (simp add: map_ok_def heap_simps)
  have lp: "heap_wf h' \<and> map_ok h' (Some rv) \<and> agree_below (h_next h) ?h1 h' \<and> h_next ?h1 \<le> h_next h' \<and>
            header_view h' (Some rv) =
              foldl (\<lambda>m (k, s). m(k \<mapsto> slice_values ?h1 s)) (header_view ?h1 (Some rv)) ?kvs \<and>
            footprint h' (Some rv) \<subseteq> footprint ?h1 (Some rv) \<union> {h_next ?h1..<h_next h'}"
  proof -
    have n01: "h_next h \<le> h_next ?h1" by (simp add: heap_simps)
    show ?thesis using dup_headers_loop_effect [OF wf1 ok1 order_refl n01 src] h' rv by simp
  qed
  have empty: "header_view ?h1 (Some rv) = Map.empty" and fp1: "footprint ?h1 (Some rv) = {rv}"
    using rv by (simp_all add: header_view_def footprint_def map_entries_def heap_simps)
  have "foldl (\<lambda>m (k, s). m(k \<mapsto> slice_values ?h1 s)) Map.empty ?kvs =
        map_of (map (\<lambda>(k, s). (k, slice_values ?h1 s)) ?kvs)"
    by (subst foldl_upd_map_of) (use wfe in simp_all)
  also have "\<dots> = header_view h m"
    unfolding header_view_def using sv by (simp add: case_prod_beta cong: map_cong)
  finally have view: "header_view h' (Some rv) = header_view h m" using lp empty by simp
  have "footprint h' (Some rv) \<subseteq> {h_next h..<h_next h'}"
    using lp fp1 rv by (auto simp: heap_simps)
  then show ?thesis using lp view rv agree_below_trans [OF ag1] by (simp add: heap_simps)
qed

lemma dup_request_effect:
  assumes wf: "heap_wf h" and okh: "map_ok h (req_header req)" and okt: "map_ok h (req_trailer req)"
    and d: "dup_request req h = (req', h')"
  shows "heap_wf h' \<and> agree_below (h_next h) h h' \<and> h_next h < h_next h' \<and>
         req'\<lparr>req_header := req_header req, req_trailer := req_trailer req\<rparr> = req \<and>
         (\<exists>hd tr. req_header req' = Some hd \<and> req_trailer req' = Some tr \<and> hd = h_next h \<and> hd < tr) \<and>
         map_ok h' (req_header req') \<and> map_ok h' (req_trailer req') \<and>
         header_view h' (req_header req') = header_view h (req_header req) \<and>
         header_view h' (req_trailer req') = header_view h (req_trailer req) \<and>
         footprint h' (req_header req') \<subseteq> {h_next h..<h_next h'} \<and>
         footprint h' (req_trailer req') \<subseteq> {h_next h..<h_next h'}"
proof -
  obtain hd h1 where d1: "dup_headers (req_header req) h = (hd, h1)" by fastforce
  obtain tr h2 where d2: "dup_headers (req_trailer req) h1 = (tr, h2)" by fastforce
  have rq: "req' = req\<lparr>req_header := Some hd, req_trailer := Some tr\<rparr>" and h': "h' = h2"
    using d d1 d2 by (simp_all add: dup_request_def)
  have e1: "heap_wf h1 \<and> map_ok h1 (Some hd) \<and> agree_below (h_next h) h h1 \<and> hd = h_next h \<and>
            h_next h < h_next h1 \<and> header_view h1 (Some hd) = header_view h (req_header req) \<and>
            footprint h1 (Some hd) \<subseteq> {h_next h..<h_next h1}"
    using dup_headers_effect [OF wf okh d1] .
  have okt1: "map_ok h1 (req_trailer req)" using map_ok_agree [OF wf okt] e1 by blast
  have e2: "heap_wf h2 \<and> map_ok h2 (Some tr) \<and> agree_below (h_next h1) h1 h2 \<and> tr = h_next h1 \<and>
            h_next h1 < h_next h2 \<and> header_view h2 (Some tr) = header_view h1 (req_trailer req) \<and>
            footprint h2 (Some tr) \<subseteq> {h_next h1..<h_next h2}"
    using dup_headers_effect [OF _ okt1 d2] e1 by blast
  have tv: "header_view h1 (req_trailer req) = header_view h (req_trailer req)"
    using view_frame [OF footprint_lt [OF wf okt]] e1 by blast
  have fph: "footprint h1 (Some hd) \<subseteq> {..<h_next h1}" using e1 by auto
  have hv: "header_view h2 (Some hd) = header_view h1 (Some hd) \<and> footprint h2 (Some hd) = footprint h1 (Some hd)"
    using view_frame [OF fph] e2 by blast
  have okh2: "map_ok h2 (Some hd)" using map_ok_agree [of h1 "Some hd" h2] e1 e2 by blast
  have ag: "agree_below (h_next h) h h2"
    using agree_below_trans [OF _ agree_below_mono [of "h_next h" "h_next h1" h1 h2]] e1 e2 by auto
  show ?thesis using rq h' e1 e2 tv hv okh2 ag by auto
qed

lemma round_trip_effect:
  assumes wf: "heap_wf h" and okh: "map_ok h (req_header req)" and okt: "map_ok h (req_trailer req)"
    and r: "resolve_authenticator (rt_a rt) dflt = Some f" and cred: "f (req_url_host req) = Inr (u, p)"
  shows "\<exists>req' h'. round_trip rt dflt req h = Inr (Inr (rt_slave rt req' h')) \<and>
           heap_wf h' \<and> agree_below (h_next h) h h' \<and>
           req'\<lparr>req_header := req_header req, req_trailer := req_trailer req\<rparr> = req \<and>
           header_view h' (req_header req') = (header_view h (req_header req))(''Authorization'' \<mapsto> [auth_value u p]) \<and>
           header_view h' (req_trailer req') = header_view h (req_trailer req) \<and>
           footprint h' (req_header req') \<subseteq> {h_next h..<h_next h'} \<and>
           footprint h' (req_trailer req') \<subseteq> {h_next h..<h_next h'}"
proof -
  obtain req' h1 where d: "dup_request req h = (req', h1)" by fastforce
  have D: "heap_wf h1 \<and> agree_below (h_next h) h h1 \<and> h_next h < h_next h1 \<and>
         req'\<lparr>req_header := req_header req, req_trailer := req_trailer req\<rparr> = req \<and>
         (\<exists>hd tr. req_header req' = Some hd \<and> req_trailer req' = Some tr \<and> hd = h_next h \<and> hd < tr) \<and>
         map_ok h1 (req_header req') \<and> map_ok h1 (req_trailer req') \<and>
         header_view h1 (req_header req') = header_view h (req_header req) \<and>
         header_view h1 (req_trailer req') = header_view h (req_trailer req) \<and>
         footprint h1 (req_header req') \<subseteq> {h_next h..<h_next h1} \<and>
         footprint h1 (req_trailer req') \<subseteq> {h_next h..<h_next h1}"
    using dup_request_effect [OF wf okh okt d] .
  then obtain hd tr where hd: "req_header req' = Some hd" and tr: "req_trailer req' = Some tr"
    and hdv: "hd = h_next h" and lt: "hd < tr" by blast
  have host: "req_url_host req' = req_url_host req"
    using D by (metis request.select_convs(2) request.surjective request.update_convs(3,4))
  let ?h1a = "snd (alloc_array [auth_value u p] h1)"
  let ?h2 = "map_store hd ''Authorization'' (one_slice (h_next h1)) ?h1a"
  have sig: "set_request_auth_via req' (rt_a rt) dflt h1 = Inr (None, ?h2)"
    using set_request_auth_via_ok [OF r _ hd] cred host by simp
  have okhd: "map_ok h1 (Some hd)" using D hd by simp
  have S: "heap_wf ?h2 \<and> map_ok ?h2 (Some hd) \<and> h_next ?h2 = Suc (h_next h1) \<and>
           header_view ?h2 (Some hd) = (header_view h1 (Some hd))(''Authorization'' \<mapsto> [auth_value u p]) \<and>
           footprint ?h2 (Some hd) \<subseteq> footprint h1 (Some hd) \<union> {h_next h1} \<and>
           agree_below (min hd (h_next h1)) h1 ?h2"
    using set_request_auth_via_effect [OF _ okhd hd r] D cred host sig by fastforce
  have ag: "agree_below (h_next h) h ?h2"
    using agree_below_trans [of "h_next h" h h1 ?h2] D S hdv by (simp add: min_def)
  have fpt: "footprint h1 (Some tr) \<subseteq> {..<h_next h1}" using D tr by auto
  have ag1: "agree_below (h_next h1) h1 ?h1a" by (rule agree_below_alloc_array)
  have tv: "header_view ?h2 (Some tr) = header_view h1 (Some tr) \<and> footprint ?h2 (Some tr) = footprint h1 (Some tr)"
    using lt header_view_store_other [of "Some tr" hd] footprint_store_other [of "Some tr" hd]
      view_frame [OF fpt ag1] by simp
  have "round_trip rt dflt req h = Inr (Inr (rt_slave rt req' ?h2))"
    using d sig by (simp add: round_trip_def)
  moreover have "footprint ?h2 (req_header req') \<subseteq> {h_next h..<h_next ?h2}"
  proof -
    have "footprint ?h2 (Some hd) \<subseteq> footprint h1 (Some hd) \<union> {h_next h1}" using S by blast
    moreover have "footprint h1 (Some hd) \<subseteq> {h_next h..<h_next h1}" using D hd by simp
    moreover have "h_next ?h2 = Suc (h_next h1)" and "h_next h < h_next h1" using S D by simp_all
    ultimately show ?thesis using hd subset_interval_Suc [of _ "footprint h1 (Some hd)" "h_next h1" "h_next h"]
      by simp
  qed
  moreover have "footprint ?h2 (req_trailer req') \<subseteq> {h_next h..<h_next ?h2}"
    using tv D tr S by auto
  moreover have "header_view ?h2 (req_header req') =
                 (header_view h (req_header req))(''Authorization'' \<mapsto> [auth_value u p])"
    using S D hd by simp
  moreover have "header_view ?h2 (req_trailer req') = header_view h (req_trailer req)"
    using tv D tr by simp
  ultimately show ?thesis using D S ag by blast
qed

lemma dup_request_fields:
  "req_url_host (fst (dup_request req h)) = req_url_host req \<and> req_header (fst (dup_request req h)) \<noteq> None"
  by (simp add: dup_request_def split: prod.split)

lemma round_trip_signing:
  "round_trip rt dflt req h =
     (case dup_request req h of (req', h1) \<Rightarrow>
        (case set_request_auth_via req' (rt_a rt) dflt h1 of
           Inl p \<Rightarrow> Inl p
         | Inr (Some err, h2) \<Rightarrow> Inr (Inl err)
         | Inr (None, h2) \<Rightarrow> Inr (Inr (rt_slave rt req' h2))))"
  by (simp add: round_trip_def split: prod.split)

lemma dup_headers_write_frame:
  assumes wf: "heap_wf h" and ok: "map_ok h m" and d: "dup_headers m h = (rv, h')"
    and k: "map_of (map_entries h' (Some rv)) k = Some s'" and ag: "agree_below (h_next h) h' h''"
  shows "header_view h'' m = header_view h m"
proof -
  have D: "agree_below (h_next h) h h'" using dup_headers_effect [OF wf ok d] by blast
  have "header_view h' m = header_view h m \<and> footprint h' m = footprint h m"
    using view_frame [OF footprint_lt [OF wf ok] D] by blast
  moreover have "footprint h' m \<subseteq> {..<h_next h}" using calculation footprint_lt [OF wf ok] by simp
  ultimately show ?thesis using view_frame [of h' m "h_next h" h''] ag by simp
qed

lemma dup_slice_fresh:
  assumes wf: "heap_wf h" and ok: "map_ok h m" and d: "dup_headers m h = (rv, h')"
    and k: "map_of (map_entries h' (Some rv)) k = Some s'"
  shows "\<forall>a. s_arr s' = Some a \<longrightarrow> h_next h \<le> a"
proof -
  have "footprint h' (Some rv) \<subseteq> {h_next h..<h_next h'}" using dup_headers_effect [OF wf ok d] by blast
  moreover have "set_option (s_arr s') \<subseteq> footprint h' (Some rv)"
    using k by (force simp: footprint_def dest: map_of_SomeD)
  ultimately show ?thesis by auto
qed

text \<open>
  C1: \<open>RoundTrip\<close> never changes the caller's request.  When the authenticator yields
  credentials, the wrapped transport is called, and in the heap it is given every object
  that existed before the call is unchanged, the caller's header and trailer read as
  before, the heap is well formed, and the headers of the request the transport
  receives share no map and no backing array with the caller's headers.
\<close>

theorem round_trip_preserves_original:
  assumes wf: "heap_wf h" and okh: "map_ok h (req_header req)" and okt: "map_ok h (req_trailer req)"
    and r: "resolve_authenticator (rt_a rt) dflt = Some f" and cred: "f (req_url_host req) = Inr (u, p)"
  shows "\<exists>req' h'. round_trip rt dflt req h = Inr (Inr (rt_slave rt req' h')) \<and>
           heap_wf h' \<and> agree_below (h_next h) h h' \<and>
           header_view h' (req_header req) = header_view h (req_header req) \<and>
           header_view h' (req_trailer req) = header_view h (req_trailer req) \<and>
           (footprint h' (req_header req') \<union> footprint h' (req_trailer req')) \<inter>
             (footprint h (req_header req) \<union> footprint h (req_trailer req)) = {}"
proof -
  obtain req' h' where E: "round_trip rt dflt req h = Inr (Inr (rt_slave rt req' h')) \<and>
           heap_wf h' \<and> agree_below (h_next h) h h' \<and>
           footprint h' (req_header req') \<subseteq> {h_next h..<h_next h'} \<and>
           footprint h' (req_trailer req') \<subseteq> {h_next h..<h_next h'}"
    using round_trip_effect [OF assms] by blast
  have fh: "footprint h (req_header req) \<subseteq> {..<h_next h}" using wf okh by (rule footprint_lt)
  have ft: "footprint h (req_trailer req) \<subseteq> {..<h_next h}" using wf okt by (rule footprint_lt)
  have "header_view h' (req_header req) = header_view h (req_header req)"
    using view_frame [OF fh] E by blast
  moreover have "header_view h' (req_trailer req) = header_view h (req_trailer req)"
    using view_frame [OF ft] E by blast
  moreover have "(footprint h' (req_header req') \<union> footprint h' (req_trailer req')) \<inter>
             (footprint h (req_header req) \<union> footprint h (req_trailer req)) = {}"
    using E fh ft by fastforce
  ultimately show ?thesis using E by blast
qed

theorem round_trip_preserves_original_witness:
  "\<exists>req' h'. round_trip (wrap_http_transport (\<lambda>r h. r) (Some example_auth)) None example_request example_heap =
              Inr (Inr req') \<and> heap_wf h' \<and> agree_below 2 example_heap h' \<and>
           header_view h' (Some 0) = header_view example_heap (Some 0) \<and>
           header_view h' None = header_view example_heap None \<and>
           (footprint h' (req_header req') \<union> footprint h' (req_trailer req')) \<inter>
             (footprint example_heap (Some 0) \<union> footprint example_heap None) = {}"
  using round_trip_preserves_original [of example_heap example_request
      "wrap_http_transport (\<lambda>r h. r) (Some example_auth)" None example_auth "''Administrator''" "''password''"]
  by (simp add: example_request_def example_auth_def resolve_authenticator_def wrap_http_transport_def)

text \<open>
  C2: \<open>RoundTrip\<close> forwards a signed copy.  When the authenticator yields credentials for
  the request's host, the wrapped transport receives a request equal to the caller's in
  every field but the header and trailer maps, whose header reads as the caller's plus
  \<open>Authorization: Basic base64(user:password)\<close> and whose trailer reads as the caller's.
\<close>

theorem round_trip_forwards_signed_copy:
  assumes "heap_wf h" and "map_ok h (req_header req)" and "map_ok h (req_trailer req)"
    and "resolve_authenticator (rt_a rt) dflt = Some f" and "f (req_url_host req) = Inr (u, p)"
  shows "\<exists>req' h'. round_trip rt dflt req h = Inr (Inr (rt_slave rt req' h')) \<and>
           req'\<lparr>req_header := req_header req, req_trailer := req_trailer req\<rparr> = req \<and>
           header_view h' (req_header req') =
             (header_view h (req_header req))(''Authorization'' \<mapsto> [''Basic '' @ basic_auth u p]) \<and>
           header_view h' (req_trailer req') = header_view h (req_trailer req)"
  using round_trip_effect [OF assms] unfolding auth_value_def by blast

theorem round_trip_forwards_signed_copy_witness:
  "\<exists>req' h'. round_trip (wrap_http_transport (\<lambda>r h. (r, h)) (Some example_auth)) None example_request example_heap =
              Inr (Inr (req', h')) \<and>
           req'\<lparr>req_header := Some 0, req_trailer := None\<rparr> = example_request \<and>
           header_view h' (req_header req') =
             [''Accept'' \<mapsto> [''*/*''], ''Authorization'' \<mapsto> [''Basic '' @ basic_auth ''Administrator'' ''password'']] \<and>
           header_view h' (req_trailer req') = Map.empty"
proof -
  have v: "header_view example_heap (Some 0) = [''Accept'' \<mapsto> [''*/*'']]"
    by (simp add: header_view_def map_entries_def slice_values_def example_heap_def)
  show ?thesis
    using round_trip_forwards_signed_copy [of example_heap example_request
        "wrap_http_transport (\<lambda>r h. (r, h)) (Some example_auth)" None example_auth "''Administrator''" "''password''"] v
    by (simp add: example_request_def example_auth_def resolve_authenticator_def wrap_http_transport_def
        header_view_def map_entries_def)
qed

text \<open>
  C3: a header map duplicated by \<open>dupHeaders\<close> is independent of its source: storing into
  an element of any value slice of the copy (\<open>rv[k][i] = v\<close>) leaves the source map
  reading exactly as before.
\<close>

theorem dup_headers_store_isolated:
  assumes "heap_wf h" and "map_ok h m" and "dup_headers m h = (rv, h')"
    and "map_of (map_entries h' (Some rv)) k = Some s'" and "slice_store s' i v h' = Inr h''"
  shows "header_view h'' m = header_view h m"
  using dup_headers_write_frame [OF assms(1-4)] agree_below_slice_store [OF assms(5)]
    dup_slice_fresh [OF assms(1-4)] by blast

text \<open>
  C4: likewise, appending to a value slice of the copy (\<open>rv[k] = append(rv[k], vs...)\<close>)
  leaves the source map reading exactly as before.
\<close>

theorem dup_headers_append_isolated:
  assumes "heap_wf h" and "map_ok h m" and "dup_headers m h = (rv, h')"
    and "map_of (map_entries h' (Some rv)) k = Some s'" and "slice_append s' vs h' = (s'', h'')"
  shows "header_view h'' m = header_view h m"
proof -
  have "h_next h \<le> h_next h'" using dup_headers_effect [OF assms(1-3)] by simp
  then show ?thesis
    using dup_headers_write_frame [OF assms(1-4)] agree_below_slice_append [OF assms(5)]
      dup_slice_fresh [OF assms(1-4)] by blast
qed

text \<open>
  C5: when the authenticator fails for the request's host, \<open>RoundTrip\<close> returns that
  error and the wrapped transport is never called (the result does not involve it).
\<close>

theorem round_trip_auth_error:
  assumes "resolve_authenticator (rt_a rt) dflt = Some f" and "f (req_url_host req) = Inl e"
  shows "round_trip rt dflt req h = Inr (Inl (GoErr e))"
proof -
  obtain req' h1 where d: "dup_request req h = (req', h1)" by fastforce
  have "req_url_host req' = req_url_host req" using dup_request_fields [of req h] d by simp
  then show ?thesis using set_request_auth_via_error [OF assms(1), of req' e h1] assms(2) d
    by (simp add: round_trip_signing)
qed

lemma example_dup_headers: "dup_headers (Some 0) example_heap = (2, example_dup_heap)"
  by (simp add: dup_headers_def alloc_map_def map_entries_def example_heap_def example_dup_heap_def
      duplicate_strings_slice_def alloc_array_def slice_append_def slice_values_def map_store_def Let_def)

theorem dup_headers_store_isolated_witness:
  "\<exists>h''. slice_store \<lparr>s_arr = Some 4, s_off = 0, s_len = 1, s_cap = 1\<rparr> 0 ''text/html'' example_dup_heap = Inr h'' \<and>
         header_view h'' (Some 0) = header_view example_heap (Some 0) \<and>
         header_view h'' (Some 2) = [''Accept'' \<mapsto> [''text/html'']]"
proof -
  let ?h'' = "array_write 4 0 [''text/html''] example_dup_heap"
  have st: "slice_store \<lparr>s_arr = Some 4, s_off = 0, s_len = 1, s_cap = 1\<rparr> 0 ''text/html'' example_dup_heap = Inr ?h''"
    by (simp add: slice_store_def)
  have "header_view ?h'' (Some 0) = header_view example_heap (Some 0)"
    using dup_headers_store_isolated [OF example_heap_wf example_map_ok example_dup_headers _ st,
        of "''Accept''"]
    by (simp add: example_dup_heap_def map_entries_def)
  moreover have "header_view ?h'' (Some 2) = [''Accept'' \<mapsto> [''text/html'']]"
    by (simp add: example_dup_heap_def header_view_def map_entries_def slice_values_def array_write_def)
  ultimately show ?thesis using st by blast
qed

theorem dup_headers_append_isolated_witness:
  "\<exists>s'' h''. slice_append \<lparr>s_arr = Some 4, s_off = 0, s_len = 1, s_cap = 1\<rparr> [''text/html''] example_dup_heap = (s'', h'') \<and>
         header_view h'' (Some 0) = header_view example_heap (Some 0)"
proof -
  obtain s'' h'' where
    ap: "slice_append \<lparr>s_arr = Some 4, s_off = 0, s_len = 1, s_cap = 1\<rparr> [''text/html''] example_dup_heap = (s'', h'')"
    by fastforce
  have "header_view h'' (Some 0) = header_view example_heap (Some 0)"
    using dup_headers_append_isolated [OF example_heap_wf example_map_ok example_dup_headers _ ap,
        of "''Accept''"]
    by (simp add: example_dup_heap_def map_entries_def)
  then show ?thesis using ap by blast
qed

theorem round_trip_auth_error_witness:
  "round_trip (wrap_http_transport (\<lambda>r h. r) (Some example_auth)) None
     (example_request\<lparr>req_url_host := ''10.0.0.1:8091''\<rparr>) example_heap = Inr (Inl (GoErr ''unknown host''))"
  using round_trip_auth_error [of "wrap_http_transport (\<lambda>r h. r) (Some example_auth)" None example_auth
      "example_request\<lparr>req_url_host := ''10.0.0.1:8091''\<rparr>" "''unknown host''" example_heap]
  by (simp add: example_request_def example_auth_def resolve_authenticator_def wrap_http_transport_def)

text \<open>
  C19: \<open>dupRequest\<close> returns a copy equal to the request in every field but the header
  and trailer maps, which are freshly allocated, read as the originals, and share no map
  and no backing array with them; the originals are unchanged and the heap stays well
  formed.
\<close>

theorem dup_request_copy:
  assumes wf: "heap_wf h" and okh: "map_ok h (req_header req)" and okt: "map_ok h (req_trailer req)"
    and d: "dup_request req h = (req', h')"
  shows "heap_wf h' \<and> req'\<lparr>req_header := req_header req, req_trailer := req_trailer req\<rparr> = req \<and>
         header_view h' (req_header req') = header_view h (req_header req) \<and>
         header_view h' (req_trailer req') = header_view h (req_trailer req) \<and>
         header_view h' (req_header req) = header_view h (req_header req) \<and>
         header_view h' (req_trailer req) = header_view h (req_trailer req) \<and>
         (footprint h' (req_header req') \<union> footprint h' (req_trailer req')) \<inter>
           (footprint h' (req_header req) \<union> footprint h' (req_trailer req)) = {}"
proof -
  have D: "heap_wf h' \<and> agree_below (h_next h) h h' \<and>
         req'\<lparr>req_header := req_header req, req_trailer := req_trailer req\<rparr> = req \<and>
         header_view h' (req_header req') = header_view h (req_header req) \<and>
         header_view h' (req_trailer req') = header_view h (req_trailer req) \<and>
         footprint h' (req_header req') \<subseteq> {h_next h..<h_next h'} \<and>
         footprint h' (req_trailer req') \<subseteq> {h_next h..<h_next h'}"
    using dup_request_effect [OF assms] by blast
  have fh: "footprint h (req_header req) \<subseteq> {..<h_next h}" using wf okh by (rule footprint_lt)
  have ft: "footprint h (req_trailer req) \<subseteq> {..<h_next h}" using wf okt by (rule footprint_lt)
  have vh: "header_view h' (req_header req) = header_view h (req_header req) \<and>
            footprint h' (req_header req) = footprint h (req_header req)"
    using view_frame [OF fh] D by blast
  have vt: "header_view h' (req_trailer req) = header_view h (req_trailer req) \<and>
            footprint h' (req_trailer req) = footprint h (req_trailer req)"
    using view_frame [OF ft] D by blast
  have "(footprint h' (req_header req') \<union> footprint h' (req_trailer req')) \<inter>
           (footprint h' (req_header req) \<union> footprint h' (req_trailer req)) = {}"
    using D vh vt fh ft by fastforce
  then show ?thesis using D vh vt by blast
qed

theorem dup_request_copy_witness:
  "case dup_request example_request example_heap of (req', h') \<Rightarrow>
     heap_wf h' \<and> req'\<lparr>req_header := Some 0, req_trailer := None\<rparr> = example_request \<and>
     header_view h' (req_header req') = header_view example_heap (Some 0) \<and>
     header_view h' (req_trailer req') = header_view example_heap None \<and>
     header_view h' (Some 0) = header_view example_heap (Some 0) \<and>
     header_view h' None = header_view example_heap None \<and>
     (footprint h' (req_header req') \<union> footprint h' (req_trailer req')) \<inter>
       (footprint h' (Some 0) \<union> footprint h' None) = {}"
  using dup_request_copy [of example_heap example_request "fst (dup_request example_request example_heap)"
      "snd (dup_request example_request example_heap)"]
  by (simp add: example_request_def case_prod_beta)

text \<open>
  C20: \<open>RoundTrip\<close> never panics, whatever the request: the copy it signs always has a
  header map, even when the caller's \<open>Header\<close> is nil (compare C22).
\<close>

theorem round_trip_never_panics: "\<not> isl (round_trip rt dflt req h)"
proof -
  obtain req' h1 where d: "dup_request req h = (req', h1)" by fastforce
  obtain hd where hd: "req_header req' = Some hd" using dup_request_fields [of req h] d by auto
  have "\<not> isl (set_request_auth_via req' (rt_a rt) dflt h1)"
  proof (cases "resolve_authenticator (rt_a rt) dflt")
    case None then show ?thesis by (simp add: set_request_auth_via_unresolved)
  next
    case (Some f)
    then show ?thesis
      using set_request_auth_via_error [OF Some] set_request_auth_via_ok [OF Some _ hd]
      by (cases "f (req_url_host req')") auto
  qed
  then show ?thesis using d by (auto simp: round_trip_signing split: sum.split option.split)
qed

end
