(* ===== verification/Interleaving.thy ===== *)
theory Interleaving
  imports Transport
begin

text \<open>
  Concurrent use of one \<open>cbauthRoundTripper\<close> (spec section 5): several goroutines call
  \<open>RoundTrip\<close> at once, on requests that may share their header and trailer maps (a
  template).  Each call is a thread whose state records how far \<open>RoundTrip\<close> has got; a
  thread step is one atomic action of the code on the shared heap, with the same
  definitions as the sequential model: allocating the copy's map, one iteration of the
  \<open>dupHeaders\<close> loop (\<open>duplicate_strings_slice\<close> and the map store), and the signing
  (\<open>set_request_auth_via\<close>).  The loop ranges over the entries of the source map read when
  the loop starts, which are the entries it sees throughout since no thread ever writes a
  caller's map (\<open>interleaved_originals_unchanged\<close>).  \<open>sys_step\<close> lets any thread take its
  next step; \<open>reach\<close> is the set of states of every interleaving.
\<close>

datatype 'e tstate =
    TStart request
  | TCopyH request addr hmap
  | TCopyT request addr addr hmap
  | TSign request request
  | TSend request request
  | TFail request "'e cb_error"
  | TPanic request runtime_error

fun thread_step ::
  "('e, 'r) round_tripper \<Rightarrow> 'e authenticator option \<Rightarrow> 'e tstate \<Rightarrow> heap \<Rightarrow> ('e tstate \<times> heap) option" where
  "thread_step rt dflt (TStart r) h =
     (let (rv, h1) = alloc_map [] h in Some (TCopyH r rv (map_entries h1 (req_header r)), h1))"
| "thread_step rt dflt (TCopyH r rv ((k, v) # kvs)) h =
     (let (v', h1) = duplicate_strings_slice v h in Some (TCopyH r rv kvs, map_store rv k v' h1))"
| "thread_step rt dflt (TCopyH r rv []) h =
     (let (tv, h1) = alloc_map [] h in Some (TCopyT r rv tv (map_entries h1 (req_trailer r)), h1))"
| "thread_step rt dflt (TCopyT r rv tv ((k, v) # kvs)) h =
     (let (v', h1) = duplicate_strings_slice v h in Some (TCopyT r rv tv kvs, map_store tv k v' h1))"
| "thread_step rt dflt (TCopyT r rv tv []) h =
     Some (TSign r (r\<lparr>req_header := Some rv, req_trailer := Some tv\<rparr>), h)"
| "thread_step rt dflt (TSign r r') h =
     (case set_request_auth_via r' (rt_a rt) dflt h of
        Inl (Panic p) \<Rightarrow> Some (TPanic r p, h)
      | Inr (Some e, h') \<Rightarrow> Some (TFail r e, h')
      | Inr (None, h') \<Rightarrow> Some (TSend r r', h'))"
| "thread_step rt dflt (TSend r r') h = None"
| "thread_step rt dflt (TFail r e) h = None"
| "thread_step rt dflt (TPanic r p) h = None"

inductive sys_step ::
  "('e, 'r) round_tripper \<Rightarrow> 'e authenticator option \<Rightarrow> heap \<times> 'e tstate list \<Rightarrow> heap \<times> 'e tstate list \<Rightarrow> bool"
  for rt dflt where
  step: "i < length ts \<Longrightarrow> thread_step rt dflt (ts ! i) h = Some (t', h') \<Longrightarrow>
         sys_step rt dflt (h, ts) (h', ts[i := t'])"

inductive reach ::
  "('e, 'r) round_tripper \<Rightarrow> 'e authenticator option \<Rightarrow> heap \<Rightarrow> request list \<Rightarrow>
   heap \<times> 'e tstate list \<Rightarrow> bool"
  for rt dflt h0 reqs where
  init: "reach rt dflt h0 reqs (h0, map TStart reqs)"
| step: "reach rt dflt h0 reqs s \<Longrightarrow> sys_step rt dflt s s' \<Longrightarrow> reach rt dflt h0 reqs s'"

text \<open>The caller's request of a thread, and the maps of the copy it owns.\<close>

fun orig_req :: "'e tstate \<Rightarrow> request" where
  "orig_req (TStart r) = r"
| "orig_req (TCopyH r rv kvs) = r"
| "orig_req (TCopyT r rv tv kvs) = r"
| "orig_req (TSign r r') = r"
| "orig_req (TSend r r') = r"
| "orig_req (TFail r e) = r"
| "orig_req (TPanic r p) = r"

fun dup_maps :: "'e tstate \<Rightarrow> addr list" where
  "dup_maps (TCopyH r rv kvs) = [rv]"
| "dup_maps (TCopyT r rv tv kvs) = [rv, tv]"
| "dup_maps (TSign r r') = [the (req_header r'), the (req_trailer r')]"
| "dup_maps (TSend r r') = [the (req_header r'), the (req_trailer r')]"
| "dup_maps _ = []"

definition frame_maps :: "addr set \<Rightarrow> heap \<Rightarrow> heap \<Rightarrow> bool" where
  "frame_maps A h h' \<longleftrightarrow>
     h_next h \<le> h_next h' \<and>
     (\<forall>a<h_next h. map_of (h_arrays h') a = map_of (h_arrays h) a) \<and>
     (\<forall>a<h_next h. a \<notin> A \<longrightarrow> map_of (h_maps h') a = map_of (h_maps h) a)"

text \<open>
  The invariant of a thread: the copy maps it owns were allocated after the callers'
  requests (at or above \<open>h_next h0\<close>), exist, and read as the part of the caller's maps
  copied so far; once signed, the header reads as the caller's plus the thread's own
  credentials; a failure is an authenticator error or a missing default; a panic never
  happens.
\<close>

fun thread_inv ::
  "('e, 'r) round_tripper \<Rightarrow> 'e authenticator option \<Rightarrow> heap \<Rightarrow> heap \<Rightarrow> 'e tstate \<Rightarrow> bool" where
  "thread_inv rt dflt h0 h (TStart r) = True"
| "thread_inv rt dflt h0 h (TCopyH r rv kvs) =
     (h_next h0 \<le> rv \<and> map_ok h (Some rv) \<and>
      (\<exists>ds. ds @ kvs = map_entries h0 (req_header r) \<and>
              header_view h (Some rv) = foldl (\<lambda>m (k, s). m(k \<mapsto> slice_values h0 s)) Map.empty ds))"
| "thread_inv rt dflt h0 h (TCopyT r rv tv kvs) =
     (h_next h0 \<le> rv \<and> h_next h0 \<le> tv \<and> map_ok h (Some rv) \<and> map_ok h (Some tv) \<and>
      header_view h (Some rv) = header_view h0 (req_header r) \<and>
      (\<exists>ds. ds @ kvs = map_entries h0 (req_trailer r) \<and>
              header_view h (Some tv) = foldl (\<lambda>m (k, s). m(k \<mapsto> slice_values h0 s)) Map.empty ds))"
| "thread_inv rt dflt h0 h (TSign r r') =
     (\<exists>rv tv. req_header r' = Some rv \<and> req_trailer r' = Some tv \<and> h_next h0 \<le> rv \<and> h_next h0 \<le> tv \<and>
        map_ok h (Some rv) \<and> map_ok h (Some tv) \<and>
        r'\<lparr>req_header := req_header r, req_trailer := req_trailer r\<rparr> = r \<and>
        header_view h (Some rv) = header_view h0 (req_header r) \<and>
        header_view h (Some tv) = header_view h0 (req_trailer r))"
| "thread_inv rt dflt h0 h (TSend r r') =
     (\<exists>rv tv f u p. req_header r' = Some rv \<and> req_trailer r' = Some tv \<and> h_next h0 \<le> rv \<and> h_next h0 \<le> tv \<and>
        map_ok h (Some rv) \<and> map_ok h (Some tv) \<and>
        r'\<lparr>req_header := req_header r, req_trailer := req_trailer r\<rparr> = r \<and>
        resolve_authenticator (rt_a rt) dflt = Some f \<and> f (req_url_host r) = Inr (u, p) \<and>
        header_view h (Some rv) = (header_view h0 (req_header r))(''Authorization'' \<mapsto> [auth_value u p]) \<and>
        header_view h (Some tv) = header_view h0 (req_trailer r))"
| "thread_inv rt dflt h0 h (TFail r e) =
     ((resolve_authenticator (rt_a rt) dflt = None \<and> e = ErrNotInitialized) \<or>
      (\<exists>f e'. resolve_authenticator (rt_a rt) dflt = Some f \<and> f (req_url_host r) = Inl e' \<and> e = GoErr e'))"
| "thread_inv rt dflt h0 h (TPanic r p) = False"

definition init_ok :: "heap \<Rightarrow> request list \<Rightarrow> bool" where
  "init_ok h0 reqs \<longleftrightarrow> heap_wf h0 \<and> list_all (\<lambda>r. map_ok h0 (req_header r) \<and> map_ok h0 (req_trailer r)) reqs"

definition sys_inv ::
  "('e, 'r) round_tripper \<Rightarrow> 'e authenticator option \<Rightarrow> heap \<Rightarrow> request list \<Rightarrow> heap \<times> 'e tstate list \<Rightarrow> bool" where
  "sys_inv rt dflt h0 reqs s \<longleftrightarrow>
     heap_wf (fst s) \<and> agree_below (h_next h0) h0 (fst s) \<and> h_next h0 \<le> h_next (fst s) \<and>
     map orig_req (snd s) = reqs \<and> list_all (thread_inv rt dflt h0 (fst s)) (snd s) \<and>
     distinct (concat (map dup_maps (snd s)))"

text \<open>What a thread needs before a step, and what the step guarantees.\<close>

definition step_pre ::
  "('e, 'r) round_tripper \<Rightarrow> 'e authenticator option \<Rightarrow> heap \<Rightarrow> 'e tstate \<Rightarrow> heap \<Rightarrow> bool" where
  "step_pre rt dflt h0 t h \<longleftrightarrow>
     heap_wf h0 \<and> map_ok h0 (req_header (orig_req t)) \<and> map_ok h0 (req_trailer (orig_req t)) \<and>
     heap_wf h \<and> agree_below (h_next h0) h0 h \<and> h_next h0 \<le> h_next h \<and>
     thread_inv rt dflt h0 h t \<and> distinct (dup_maps t)"

definition step_post ::
  "('e, 'r) round_tripper \<Rightarrow> 'e authenticator option \<Rightarrow> heap \<Rightarrow> 'e tstate \<Rightarrow> heap \<Rightarrow> 'e tstate \<Rightarrow> heap \<Rightarrow> bool" where
  "step_post rt dflt h0 t h t' h' \<longleftrightarrow>
     heap_wf h' \<and> frame_maps (set (dup_maps t)) h h' \<and> thread_inv rt dflt h0 h' t' \<and>
     set (dup_maps t') \<subseteq> set (dup_maps t) \<union> {h_next h} \<and> distinct (dup_maps t') \<and>
     orig_req t' = orig_req t"

text \<open>
  A thread run alone: the reflexive-transitive closure of its own steps.  A final state
  gives the result \<open>RoundTrip\<close> returns (\<open>thread_outcome\<close>): the transport's result on the
  signed copy in the heap at the time of the call, the signing error, or the panic.
\<close>

inductive thread_steps ::
  "('e, 'r) round_tripper \<Rightarrow> 'e authenticator option \<Rightarrow> 'e tstate \<Rightarrow> heap \<Rightarrow> 'e tstate \<Rightarrow> heap \<Rightarrow> bool"
  for rt dflt where
  refl: "thread_steps rt dflt t h t h"
| step: "thread_step rt dflt t h = Some (t1, h1) \<Longrightarrow> thread_steps rt dflt t1 h1 t' h' \<Longrightarrow>
         thread_steps rt dflt t h t' h'"

fun thread_outcome ::
  "('e, 'r) round_tripper \<Rightarrow> 'e tstate \<Rightarrow> heap \<Rightarrow> (runtime_error panic + ('e cb_error + 'r)) option" where
  "thread_outcome rt (TSend r r') h = Some (Inr (Inr (rt_slave rt r' h)))"
| "thread_outcome rt (TFail r e) h = Some (Inr (Inl e))"
| "thread_outcome rt (TPanic r p) h = Some (Inl (Panic p))"
| "thread_outcome rt _ h = None"

fun finished :: "'e tstate \<Rightarrow> bool" where
  "finished (TSend r r') = True"
| "finished (TFail r e) = True"
| "finished _ = False"

text \<open>
  The number of steps a thread has left: the entries of the caller's maps still to be
  copied (read in the initial heap, which the invariant shows is what the loop sees), one
  allocation per map, the step into \<open>TSign\<close> and the signing.
\<close>

fun thread_rank :: "heap \<Rightarrow> 'e tstate \<Rightarrow> nat" where
  "thread_rank h0 (TStart r) =
     length (map_entries h0 (req_header r)) + length (map_entries h0 (req_trailer r)) + 4"
| "thread_rank h0 (TCopyH r rv kvs) = length kvs + length (map_entries h0 (req_trailer r)) + 3"
| "thread_rank h0 (TCopyT r rv tv kvs) = length kvs + 2"
| "thread_rank h0 (TSign r r') = 1"
| "thread_rank h0 _ = 0"

definition sys_rank :: "heap \<Rightarrow> heap \<times> 'e tstate list \<Rightarrow> nat" where
  "sys_rank h0 s = sum_list (map (thread_rank h0) (snd s))"

text \<open>
  Two goroutines calling \<open>RoundTrip\<close> on requests built from one template: both share the
  header map at address 0 of \<open>example_heap\<close>; the second request names a host the
  authenticator does not know.
\<close>

definition example_reqs :: "request list" where
  "example_reqs = [example_request, example_request\<lparr>req_url_host := ''10.0.0.1:8091''\<rparr>]"

definition example_rt :: "(gostring, request) round_tripper" where
  "example_rt = wrap_http_transport (\<lambda>r h. r) (Some example_auth)"

text \<open>
  What a wrapped transport can observe of the request it receives, independent of where
  the copy was allocated: the request's other fields and the contents of its header and
  trailer maps.
\<close>

definition req_view ::
  "request \<Rightarrow> heap \<Rightarrow> request \<times> (gostring \<rightharpoonup> gostring list) \<times> (gostring \<rightharpoonup> gostring list)" where
  "req_view q h = (q\<lparr>req_header := None, req_trailer := None\<rparr>, header_view h (req_header q), header_view h (req_trailer q))"

inductive_cases sys_stepE: "sys_step rt dflt s s'"

lemma frame_maps_view:
  assumes wf: "heap_wf h" and ok: "map_ok h (Some a)" and fr: "frame_maps A h h'" and a: "a \<notin> A"
  shows "header_view h' (Some a) = header_view h (Some a) \<and> map_ok h' (Some a)"
proof -
  obtain kvs where kvs: "map_of (h_maps h) a = Some kvs" using ok by (auto simp: map_ok_def)
  have lt: "a < h_next h" and sl: "list_all (\<lambda>(k, s). slice_ok h s) kvs" using heap_wf_map [OF wf kvs] by auto
  have kvs': "map_of (h_maps h') a = Some kvs" using fr lt a kvs by (simp add: frame_maps_def)
  have "\<forall>(k, s)\<in>set kvs. slice_values h' s = slice_values h s"
  proof
    fix ks assume "ks \<in> set kvs"
    then obtain k s where ks: "ks = (k, s)" and "slice_ok h s" using sl by (cases ks) (auto simp: list_all_iff)
    moreover have "\<forall>b. s_arr s = Some b \<longrightarrow> b < h_next h" using calculation slice_ok_arr_lt [OF wf] by blast
    ultimately show "case ks of (k, s) \<Rightarrow> slice_values h' s = slice_values h s"
      using fr by (auto simp: frame_maps_def slice_values_def split: option.split)
  qed
  then show ?thesis using kvs kvs'
    by (auto simp: header_view_def map_entries_def map_ok_def case_prod_beta cong: map_cong)
qed

lemma frame_maps_agree:
  assumes fr: "frame_maps A h h'" and A: "\<forall>a\<in>A. n \<le> a" and n: "n \<le> h_next h"
  shows "agree_below n h h'"
  unfolding agree_below_def
proof (intro allI impI)
  fix a assume a: "a < n"
  then have "a < h_next h" and "a \<notin> A" using n A by auto
  then show "map_of (h_arrays h') a = map_of (h_arrays h) a \<and> map_of (h_maps h') a = map_of (h_maps h) a"
    using fr by (simp add: frame_maps_def)
qed

lemma frame_maps_alloc_map: "frame_maps A h (snd (alloc_map kvs h))"
  by (simp add: frame_maps_def heap_simps)

lemma frame_maps_store:
  "agree_below (h_next h) h h1 \<Longrightarrow> h_next h \<le> h_next h1 \<Longrightarrow> a \<in> A \<Longrightarrow> frame_maps A h (map_store a k v h1)"
  by (simp add: frame_maps_def agree_below_def heap_simps)

lemma foldl_entries_view:
  assumes "heap_wf h"
  shows "foldl (\<lambda>m (k, s). m(k \<mapsto> slice_values h s)) Map.empty (map_entries h m) = header_view h m"
proof -
  have "distinct (map fst (map_entries h m))" using map_entries_wf [OF assms] by blast
  then show ?thesis by (subst foldl_upd_map_of) (simp_all add: header_view_def)
qed

lemma frame_maps_mono: "A \<subseteq> B \<Longrightarrow> frame_maps A h h' \<Longrightarrow> frame_maps B h h'"
  by (auto simp: frame_maps_def)

lemma thread_inv_frame:
  assumes wf: "heap_wf h" and inv: "thread_inv rt dflt h0 h t" and fr: "frame_maps A h h'"
    and dis: "set (dup_maps t) \<inter> A = {}"
  shows "thread_inv rt dflt h0 h' t"
proof (cases t)
  case (TCopyH r rv kvs)
  then show ?thesis using inv dis frame_maps_view [OF wf _ fr, of rv] by auto
next
  case (TCopyT r rv tv kvs)
  then show ?thesis using inv dis frame_maps_view [OF wf _ fr, of rv] frame_maps_view [OF wf _ fr, of tv] by auto
next
  case (TSign r r')
  then show ?thesis using inv dis frame_maps_view [OF wf _ fr] by fastforce
next
  case (TSend r r')
  then show ?thesis using inv dis frame_maps_view [OF wf _ fr] by fastforce
qed (use inv in simp_all)

lemma template_entries:
  assumes wf0: "heap_wf h0" and ok: "map_ok h0 m" and ag: "agree_below (h_next h0) h0 h"
  shows "map_entries h m = map_entries h0 m \<and>
         (\<forall>(k, v)\<in>set (map_entries h0 m). slice_ok h v \<and> slice_values h v = slice_values h0 v)"
proof -
  have "map_entries h m = map_entries h0 m" using view_frame [OF footprint_lt [OF wf0 ok] ag] by blast
  moreover have "list_all (\<lambda>(k, s). slice_ok h s \<and> set_option (s_arr s) \<subseteq> {..<h_next h0}) (map_entries h0 m) \<and>
        (\<forall>(k, s)\<in>set (map_entries h0 m). slice_values h s = slice_values h0 s)"
    using slices_frame [OF _ ag] map_entries_wf [OF wf0] by blast
  ultimately show ?thesis by (fastforce simp: list_all_iff)
qed

lemma frame_maps_refl: "frame_maps A h h"
  by (simp add: frame_maps_def)

lemma map_ok_lt: "heap_wf h \<Longrightarrow> map_ok h (Some a) \<Longrightarrow> a < h_next h"
  by (auto simp: map_ok_def dest: heap_wf_map)

lemma step_start:
  assumes pre: "step_pre rt dflt h0 (TStart r) h"
    and st: "thread_step rt dflt (TStart r) h = Some (t', h')"
  shows "step_post rt dflt h0 (TStart r) h t' h'"
proof -
  let ?h1 = "snd (alloc_map [] h)"
  have "thread_step rt dflt (TStart r) h = Some (TCopyH r (h_next h) (map_entries ?h1 (req_header r)), ?h1)"
    by (simp add: Let_def case_prod_beta heap_simps)
  then have t': "t' = TCopyH r (h_next h) (map_entries ?h1 (req_header r))" and h': "h' = ?h1"
    using st by auto
  have wf0: "heap_wf h0" and ok0: "map_ok h0 (req_header r)" and wf: "heap_wf h"
    and ag: "agree_below (h_next h0) h0 h" and nn: "h_next h0 \<le> h_next h"
    using pre by (simp_all add: step_pre_def)
  have ag1: "agree_below (h_next h0) h0 ?h1"
    using agree_below_trans [OF ag agree_below_mono [OF nn agree_below_alloc_map]] .
  have "map_entries ?h1 (req_header r) = map_entries h0 (req_header r)"
    using template_entries [OF wf0 ok0 ag1] by blast
  moreover have "header_view ?h1 (Some (h_next h)) = Map.empty"
    by (simp add: header_view_def map_entries_def heap_simps)
  moreover have "heap_wf ?h1" using heap_wf_alloc_map [OF wf] by simp
  ultimately show ?thesis using t' h' nn
    by (auto simp: step_post_def frame_maps_alloc_map map_ok_def heap_simps)
qed

lemma copy_step:
  assumes wf: "heap_wf h" and ok: "map_ok h (Some a)" and vok: "slice_ok h v"
    and d: "duplicate_strings_slice v h = (v', h1)" and A: "a \<in> A"
  shows "heap_wf (map_store a k v' h1) \<and> frame_maps A h (map_store a k v' h1) \<and>
         frame_maps {a} h (map_store a k v' h1) \<and> map_ok (map_store a k v' h1) (Some a) \<and>
         header_view (map_store a k v' h1) (Some a) = (header_view h (Some a))(k \<mapsto> slice_values h v) \<and>
         h_next (map_store a k v' h1) = h_next h1"
proof -
  have e: "heap_wf h1 \<and> slice_ok h1 v' \<and> slice_values h1 v' = slice_values h v \<and>
         agree_below (h_next h) h h1 \<and> h_next h \<le> h_next h1"
    using duplicate_strings_slice_effect [OF wf vok d] by blast
  have ok1: "map_ok h1 (Some a)" using map_ok_agree [OF wf ok] e by blast
  have v1: "header_view h1 (Some a) = header_view h (Some a)"
    using view_frame [OF footprint_lt [OF wf ok]] e by blast
  have "heap_wf (map_store a k v' h1)" using heap_wf_map_store [of h1 a v' k] e ok1 by (simp add: map_ok_def)
  moreover have "frame_maps A h (map_store a k v' h1)" and "frame_maps {a} h (map_store a k v' h1)"
    using frame_maps_store [of h h1 a] e A by blast+
  moreover have "map_ok (map_store a k v' h1) (Some a)" using ok1 by (rule map_ok_store)
  moreover have "header_view (map_store a k v' h1) (Some a) = (header_view h (Some a))(k \<mapsto> slice_values h v)"
    using v1 e by (simp add: header_view_store)
  ultimately show ?thesis by (simp add: heap_simps)
qed

lemma step_copyh_cons:
  assumes pre: "step_pre rt dflt h0 (TCopyH r rv ((k, v) # kvs)) h"
    and st: "thread_step rt dflt (TCopyH r rv ((k, v) # kvs)) h = Some (t', h')"
  shows "step_post rt dflt h0 (TCopyH r rv ((k, v) # kvs)) h t' h'"
proof -
  obtain v' h1 where d: "duplicate_strings_slice v h = (v', h1)" by fastforce
  have t': "t' = TCopyH r rv kvs" and h': "h' = map_store rv k v' h1" using st d by simp_all
  have wf0: "heap_wf h0" and ok0: "map_ok h0 (req_header r)" and wf: "heap_wf h"
    and ag: "agree_below (h_next h0) h0 h" and nn: "h_next h0 \<le> h_next h"
    and lo: "h_next h0 \<le> rv" and ok: "map_ok h (Some rv)"
    using pre by (simp_all add: step_pre_def)
  obtain ds where dn: "ds @ (k, v) # kvs = map_entries h0 (req_header r)"
    and vw: "header_view h (Some rv) = foldl (\<lambda>m (k, s). m(k \<mapsto> slice_values h0 s)) Map.empty ds"
    using pre by (auto simp: step_pre_def)
  have "(k, v) \<in> set (map_entries h0 (req_header r))" using dn by (metis in_set_conv_decomp)
  then have vok: "slice_ok h v" and sv: "slice_values h v = slice_values h0 v"
    using template_entries [OF wf0 ok0 ag] by auto
  have c: "heap_wf h' \<and> frame_maps {rv} h h' \<and> map_ok h' (Some rv) \<and>
           header_view h' (Some rv) = (header_view h (Some rv))(k \<mapsto> slice_values h v)"
    using copy_step [OF wf ok vok d, of "{rv}" k] h' by simp
  have e1: "(ds @ [(k, v)]) @ kvs = map_entries h0 (req_header r)" using dn by simp
  have e2: "header_view h' (Some rv) =
      foldl (\<lambda>m (k, s). m(k \<mapsto> slice_values h0 s)) Map.empty (ds @ [(k, v)])"
    using c vw sv by (simp only: foldl_snoc_upd)
  have "thread_inv rt dflt h0 h' t'"
    unfolding t' thread_inv.simps using lo c e1 e2 by blast
  then show ?thesis using c t' by (simp add: step_post_def)
qed

lemma step_copyh_nil:
  assumes pre: "step_pre rt dflt h0 (TCopyH r rv []) h"
    and st: "thread_step rt dflt (TCopyH r rv []) h = Some (t', h')"
  shows "step_post rt dflt h0 (TCopyH r rv []) h t' h'"
proof -
  let ?h1 = "snd (alloc_map [] h)"
  have "thread_step rt dflt (TCopyH r rv []) h = Some (TCopyT r rv (h_next h) (map_entries ?h1 (req_trailer r)), ?h1)"
    by (simp add: Let_def case_prod_beta heap_simps)
  then have t': "t' = TCopyT r rv (h_next h) (map_entries ?h1 (req_trailer r))" and h': "h' = ?h1"
    using st by auto
  have wf0: "heap_wf h0" and okt0: "map_ok h0 (req_trailer r)" and wf: "heap_wf h"
    and ag: "agree_below (h_next h0) h0 h" and nn: "h_next h0 \<le> h_next h"
    and lo: "h_next h0 \<le> rv" and ok: "map_ok h (Some rv)"
    and vw: "header_view h (Some rv) = foldl (\<lambda>m (k, s). m(k \<mapsto> slice_values h0 s)) Map.empty (map_entries h0 (req_header r))"
    using pre by (simp_all add: step_pre_def)
  have ag1: "agree_below (h_next h0) h0 ?h1"
    using agree_below_trans [OF ag agree_below_mono [OF nn agree_below_alloc_map]] .
  have fr: "frame_maps {} h ?h1" by (rule frame_maps_alloc_map)
  have v1: "header_view ?h1 (Some rv) = header_view h0 (req_header r) \<and> map_ok ?h1 (Some rv)"
    using frame_maps_view [OF wf ok fr] vw foldl_entries_view [OF wf0] by simp
  have "map_entries ?h1 (req_trailer r) = map_entries h0 (req_trailer r)"
    using template_entries [OF wf0 okt0 ag1] by blast
  moreover have "header_view ?h1 (Some (h_next h)) = Map.empty"
    by (simp add: header_view_def map_entries_def heap_simps)
  moreover have "heap_wf ?h1" using heap_wf_alloc_map [OF wf] by simp
  moreover have "rv < h_next h" using map_ok_lt [OF wf ok] .
  ultimately show ?thesis using t' h' nn lo v1
    by (auto simp: step_post_def frame_maps_alloc_map map_ok_def heap_simps)
qed

lemma step_copyt_cons:
  assumes pre: "step_pre rt dflt h0 (TCopyT r rv tv ((k, v) # kvs)) h"
    and st: "thread_step rt dflt (TCopyT r rv tv ((k, v) # kvs)) h = Some (t', h')"
  shows "step_post rt dflt h0 (TCopyT r rv tv ((k, v) # kvs)) h t' h'"
proof -
  obtain v' h1 where d: "duplicate_strings_slice v h = (v', h1)" by fastforce
  have t': "t' = TCopyT r rv tv kvs" and h': "h' = map_store tv k v' h1" using st d by simp_all
  have wf0: "heap_wf h0" and okt0: "map_ok h0 (req_trailer r)" and wf: "heap_wf h"
    and ag: "agree_below (h_next h0) h0 h"
    and lo: "h_next h0 \<le> rv" "h_next h0 \<le> tv" and ok: "map_ok h (Some rv)" "map_ok h (Some tv)"
    and hv: "header_view h (Some rv) = header_view h0 (req_header r)" and ne: "rv \<noteq> tv"
    using pre by (simp_all add: step_pre_def)
  obtain ds where dn: "ds @ (k, v) # kvs = map_entries h0 (req_trailer r)"
    and vw: "header_view h (Some tv) = foldl (\<lambda>m (k, s). m(k \<mapsto> slice_values h0 s)) Map.empty ds"
    using pre by (auto simp: step_pre_def)
  have "(k, v) \<in> set (map_entries h0 (req_trailer r))" using dn by (metis in_set_conv_decomp)
  then have vok: "slice_ok h v" and sv: "slice_values h v = slice_values h0 v"
    using template_entries [OF wf0 okt0 ag] by auto
  have c: "heap_wf h' \<and> frame_maps {rv, tv} h h' \<and> frame_maps {tv} h h' \<and> map_ok h' (Some tv) \<and>
           header_view h' (Some tv) = (header_view h (Some tv))(k \<mapsto> slice_values h v)"
    using copy_step [OF wf ok(2) vok d, of "{rv, tv}" k] h' by simp
  have rvv: "header_view h' (Some rv) = header_view h0 (req_header r) \<and> map_ok h' (Some rv)"
    using frame_maps_view [OF wf ok(1), of "{tv}" h'] c ne hv by simp
  have e1: "(ds @ [(k, v)]) @ kvs = map_entries h0 (req_trailer r)" using dn by simp
  have e2: "header_view h' (Some tv) =
      foldl (\<lambda>m (k, s). m(k \<mapsto> slice_values h0 s)) Map.empty (ds @ [(k, v)])"
    using c vw sv by (simp only: foldl_snoc_upd)
  have "thread_inv rt dflt h0 h' t'"
    unfolding t' thread_inv.simps using lo c rvv e1 e2 by blast
  then show ?thesis using c t' ne by (simp add: step_post_def)
qed

lemma step_copyt_nil:
  assumes pre: "step_pre rt dflt h0 (TCopyT r rv tv []) h"
    and st: "thread_step rt dflt (TCopyT r rv tv []) h = Some (t', h')"
  shows "step_post rt dflt h0 (TCopyT r rv tv []) h t' h'"
proof -
  have t': "t' = TSign r (r\<lparr>req_header := Some rv, req_trailer := Some tv\<rparr>)" and h': "h' = h"
    using st by simp_all
  have wf0: "heap_wf h0" and vw: "header_view h (Some tv) =
      foldl (\<lambda>m (k, s). m(k \<mapsto> slice_values h0 s)) Map.empty (map_entries h0 (req_trailer r))"
    using pre by (simp_all add: step_pre_def)
  have "header_view h (Some tv) = header_view h0 (req_trailer r)"
    using vw foldl_entries_view [OF wf0] by simp
  then show ?thesis using pre t' h' by (auto simp: step_pre_def step_post_def frame_maps_refl)
qed

lemma step_sign:
  assumes pre: "step_pre rt dflt h0 (TSign r r') h"
    and st: "thread_step rt dflt (TSign r r') h = Some (t', h')"
  shows "step_post rt dflt h0 (TSign r r') h t' h'"
proof -
  obtain rv tv where hd: "req_header r' = Some rv" and tr: "req_trailer r' = Some tv"
    and lo: "h_next h0 \<le> rv" "h_next h0 \<le> tv" and ok: "map_ok h (Some rv)" "map_ok h (Some tv)"
    and rq: "r'\<lparr>req_header := req_header r, req_trailer := req_trailer r\<rparr> = r"
    and hv: "header_view h (Some rv) = header_view h0 (req_header r)"
    and tvv: "header_view h (Some tv) = header_view h0 (req_trailer r)"
    using pre by (auto simp: step_pre_def)
  have wf: "heap_wf h" and ne: "rv \<noteq> tv" using pre hd tr by (simp_all add: step_pre_def)
  have host: "req_url_host r' = req_url_host r" using rq by (metis request.select_convs(2) request.surjective request.update_convs(3,4))
  show ?thesis
  proof (cases "resolve_authenticator (rt_a rt) dflt")
    case None
    then have "t' = TFail r ErrNotInitialized" and "h' = h"
      using st by (simp_all add: set_request_auth_via_unresolved)
    then show ?thesis using pre None wf by (simp add: step_pre_def step_post_def frame_maps_refl)
  next
    case (Some f)
    show ?thesis
    proof (cases "f (req_url_host r)")
      case (Inl e)
      then have "t' = TFail r (GoErr e)" and "h' = h"
        using st set_request_auth_via_error [OF Some, of r' e h] host by simp_all
      then show ?thesis using pre Some Inl wf by (auto simp: step_pre_def step_post_def frame_maps_refl)
    next
      case (Inr c)
      obtain u p where c: "c = (u, p)" by fastforce
      let ?h1 = "snd (alloc_array [auth_value u p] h)"
      let ?h2 = "map_store rv ''Authorization'' (one_slice (h_next h)) ?h1"
      have sig: "set_request_auth_via r' (rt_a rt) dflt h = Inr (None, ?h2)"
        using set_request_auth_via_ok [OF Some _ hd] Inr c host by simp
      then have t': "t' = TSend r r'" and h': "h' = ?h2" using st by simp_all
      have S: "heap_wf ?h2 \<and> map_ok ?h2 (Some rv) \<and>
           header_view ?h2 (Some rv) = (header_view h (Some rv))(''Authorization'' \<mapsto> [auth_value u p])"
        using set_request_auth_via_effect [OF wf ok(1) hd Some] Inr c host sig by fastforce
      have fr: "frame_maps {rv} h ?h2"
        by (rule frame_maps_store) (simp_all add: agree_below_alloc_array heap_simps)
      have tv2: "header_view ?h2 (Some tv) = header_view h0 (req_trailer r) \<and> map_ok ?h2 (Some tv)"
        using frame_maps_view [OF wf ok(2) fr] ne tvv by simp
      have "thread_inv rt dflt h0 ?h2 (TSend r r')"
        unfolding thread_inv.simps using hd tr lo S tv2 rq hv Some Inr c by auto
      moreover have "frame_maps {rv, tv} h ?h2" using frame_maps_mono [OF _ fr] by simp
      ultimately show ?thesis using t' h' S hd tr ne by (simp add: step_post_def)
    qed
  qed
qed

lemma thread_step_post:
  assumes pre: "step_pre rt dflt h0 t h" and st: "thread_step rt dflt t h = Some (t', h')"
  shows "step_post rt dflt h0 t h t' h'"
proof (cases t)
  case (TStart r) then show ?thesis using step_start pre st by blast
next
  case (TCopyH r rv kvs)
  show ?thesis
  proof (cases kvs)
    case Nil then show ?thesis using step_copyh_nil pre st TCopyH by blast
  next
    case (Cons kv kvs')
    obtain k v where "kv = (k, v)" by fastforce
    then show ?thesis using step_copyh_cons pre st TCopyH Cons by blast
  qed
next
  case (TCopyT r rv tv kvs)
  show ?thesis
  proof (cases kvs)
    case Nil then show ?thesis using step_copyt_nil pre st TCopyT by blast
  next
    case (Cons kv kvs')
    obtain k v where "kv = (k, v)" by fastforce
    then show ?thesis using step_copyt_cons pre st TCopyT Cons by blast
  qed
next
  case (TSign r r') then show ?thesis using step_sign pre st by blast
qed (use st in simp_all)

lemma dup_maps_inv:
  "thread_inv rt dflt h0 h t \<Longrightarrow> a \<in> set (dup_maps t) \<Longrightarrow> h_next h0 \<le> a \<and> map_ok h (Some a)"
  by (cases t) auto

lemma sys_step_inv:
  assumes ok: "init_ok h0 reqs" and inv: "sys_inv rt dflt h0 reqs s" and st: "sys_step rt dflt s s'"
  shows "sys_inv rt dflt h0 reqs s'"
  using st
proof cases
  case (step i ts h t' h')
  let ?t = "ts ! i"
  have i: "i < length ts" and ts: "thread_step rt dflt ?t h = Some (t', h')" using step by simp_all
  have wf: "heap_wf h" and ag: "agree_below (h_next h0) h0 h" and nn: "h_next h0 \<le> h_next h"
    and orig: "map orig_req ts = reqs" and all: "list_all (thread_inv rt dflt h0 h) ts"
    and dis: "distinct (concat (map dup_maps ts))"
    using inv step by (simp_all add: sys_inv_def)
  have ti: "thread_inv rt dflt h0 h ?t" using all i by (simp add: list_all_length)
  have ri: "reqs ! i = orig_req ?t" using orig i by auto
  then have rq: "map_ok h0 (req_header (orig_req ?t)) \<and> map_ok h0 (req_trailer (orig_req ?t))"
    using ok i orig by (auto simp: init_ok_def list_all_length)
  have dn: "distinct (dup_maps ?t)"
    and dj: "\<And>j. j < length ts \<Longrightarrow> j \<noteq> i \<Longrightarrow> set (dup_maps (ts ! j)) \<inter> set (dup_maps ?t) = {}"
    using distinct_concat_nth [OF dis i] by simp_all
  have "step_pre rt dflt h0 ?t h"
    using ok wf ag nn ti rq dn by (simp add: step_pre_def init_ok_def)
  then have post: "step_post rt dflt h0 ?t h t' h'" using thread_step_post ts by blast
  have wf': "heap_wf h'" and fr: "frame_maps (set (dup_maps ?t)) h h'"
    and ti': "thread_inv rt dflt h0 h' t'" and sb: "set (dup_maps t') \<subseteq> set (dup_maps ?t) \<union> {h_next h}"
    and dn': "distinct (dup_maps t')" and or': "orig_req t' = orig_req ?t"
    using post by (simp_all add: step_post_def)
  have ag': "agree_below (h_next h0) h0 h'"
    using agree_below_trans [OF ag frame_maps_agree [OF fr _ nn]] dup_maps_inv [OF ti] by blast
  have nn': "h_next h0 \<le> h_next h'" using fr nn by (simp add: frame_maps_def)
  have "map orig_req (ts[i := t']) = reqs[i := reqs ! i]" using orig or' ri by (simp add: map_update)
  then have orig': "map orig_req (ts[i := t']) = reqs" by simp
  have all': "list_all (thread_inv rt dflt h0 h') (ts[i := t'])"
    unfolding list_all_length
  proof (intro allI impI)
    fix j assume j: "j < length (ts[i := t'])"
    show "thread_inv rt dflt h0 h' (ts[i := t'] ! j)"
    proof (cases "j = i")
      case True then show ?thesis using ti' i by simp
    next
      case False
      have "thread_inv rt dflt h0 h (ts ! j)" using all j by (simp add: list_all_length)
      then show ?thesis using thread_inv_frame [OF wf _ fr] dj [of j] j False by simp
    qed
  qed
  have "\<forall>a\<in>set (concat (map dup_maps ts)). a < h_next h"
  proof
    fix a assume "a \<in> set (concat (map dup_maps ts))"
    then obtain t where "t \<in> set ts" and "a \<in> set (dup_maps t)" by auto
    then show "a < h_next h" using all dup_maps_inv map_ok_lt [OF wf] by (fastforce simp: list_all_iff)
  qed
  then have "{h_next h} \<inter> set (concat (map dup_maps ts)) = {}" by auto
  then have dis': "distinct (concat (map dup_maps (ts[i := t'])))"
    using distinct_concat_update [OF dis i dn' sb] by blast
  show ?thesis using step wf' ag' nn' orig' all' dis' by (simp add: sys_inv_def)
qed

lemma reach_sys_inv:
  assumes "reach rt dflt h0 reqs s" and ok: "init_ok h0 reqs"
  shows "sys_inv rt dflt h0 reqs s"
  using assms(1)
proof (induction rule: reach.induct)
  case init
  have e: "map (orig_req \<circ> TStart) reqs = reqs" "distinct (concat (map (dup_maps \<circ> TStart) reqs))"
    by (induction reqs) simp_all
  show ?case using ok by (simp add: sys_inv_def init_ok_def list_all_iff e)
next
  case (step s s')
  then show ?case using sys_step_inv [OF ok] by blast
qed

lemma thread_steps_trans:
  "thread_steps rt dflt t h t1 h1 \<Longrightarrow> thread_steps rt dflt t1 h1 t' h' \<Longrightarrow> thread_steps rt dflt t h t' h'"
  by (induction rule: thread_steps.induct) (auto intro: thread_steps.step)

lemma thread_steps_sys:
  assumes "thread_steps rt dflt t h t' h'" and "i < length ts"
  shows "(sys_step rt dflt)\<^sup>*\<^sup>* (h, ts[i := t]) (h', ts[i := t'])"
  using assms
proof (induction rule: thread_steps.induct)
  case (refl t h) then show ?case by simp
next
  case (step t h t1 h1 t' h')
  have "sys_step rt dflt (h, ts[i := t]) (h1, (ts[i := t])[i := t1])"
    using sys_step.step [of i "ts[i := t]"] step by simp
  then show ?case using step by (simp add: converse_rtranclp_into_rtranclp)
qed

lemma copyh_steps:
  "thread_steps rt dflt (TCopyH r rv kvs) h (TCopyH r rv []) (dup_headers_loop kvs rv h)"
proof (induction kvs arbitrary: h)
  case Nil then show ?case by (simp add: thread_steps.refl)
next
  case (Cons kv kvs)
  obtain k v where kv: "kv = (k, v)" by fastforce
  obtain v' h1 where d: "duplicate_strings_slice v h = (v', h1)" by fastforce
  show ?case using thread_steps.step [OF _ Cons.IH [of "map_store rv k v' h1"]] kv d by simp
qed

lemma copyt_steps:
  "thread_steps rt dflt (TCopyT r rv tv kvs) h (TCopyT r rv tv []) (dup_headers_loop kvs tv h)"
proof (induction kvs arbitrary: h)
  case Nil then show ?case by (simp add: thread_steps.refl)
next
  case (Cons kv kvs)
  obtain k v where kv: "kv = (k, v)" by fastforce
  obtain v' h1 where d: "duplicate_strings_slice v h = (v', h1)" by fastforce
  show ?case using thread_steps.step [OF _ Cons.IH [of "map_store tv k v' h1"]] kv d by simp
qed

text \<open>Run alone, a thread performs exactly \<open>dupRequest\<close> before it signs.\<close>

lemma solo_dup_request:
  "thread_steps rt dflt (TStart r) h (TSign r (fst (dup_request r h))) (snd (dup_request r h))"
proof -
  define h1 where "h1 = snd (alloc_map [] h)"
  define hl where "hl = dup_headers_loop (map_entries h1 (req_header r)) (h_next h) h1"
  define h2 where "h2 = snd (alloc_map [] hl)"
  define ht where "ht = dup_headers_loop (map_entries h2 (req_trailer r)) (h_next hl) h2"
  have dr: "dup_request r h = (r\<lparr>req_header := Some (h_next h), req_trailer := Some (h_next hl)\<rparr>, ht)"
    by (simp add: dup_request_def dup_headers_def Let_def case_prod_beta heap_simps h1_def hl_def h2_def ht_def)
  have s1: "thread_step rt dflt (TStart r) h = Some (TCopyH r (h_next h) (map_entries h1 (req_header r)), h1)"
    by (simp add: Let_def case_prod_beta heap_simps h1_def)
  have s2: "thread_step rt dflt (TCopyH r (h_next h) []) hl =
            Some (TCopyT r (h_next h) (h_next hl) (map_entries h2 (req_trailer r)), h2)"
    by (simp add: Let_def case_prod_beta heap_simps h2_def)
  have s3: "thread_steps rt dflt (TCopyT r (h_next h) (h_next hl) []) ht
              (TSign r (r\<lparr>req_header := Some (h_next h), req_trailer := Some (h_next hl)\<rparr>)) ht"
    by (rule thread_steps.step) (auto intro: thread_steps.refl)
  have "thread_steps rt dflt (TStart r) h (TCopyT r (h_next h) (h_next hl) []) ht"
    using thread_steps.step [OF s1 thread_steps_trans [OF copyh_steps [of rt dflt r "h_next h" "map_entries h1 (req_header r)" h1, folded hl_def]
            thread_steps.step [OF s2 copyt_steps [of rt dflt r "h_next h" "h_next hl" "map_entries h2 (req_trailer r)" h2, folded ht_def]]]] .
  then show ?thesis using thread_steps_trans [OF _ s3] dr by simp
qed

lemma thread_step_None:
  "thread_inv rt dflt h0 h t \<Longrightarrow> thread_step rt dflt t h = None \<longleftrightarrow> finished t"
  by (cases "(rt, dflt, t, h)" rule: thread_step.cases)
     (auto simp: Let_def case_prod_beta split: sum.split option.split prod.split panic.split)

lemma thread_rank_step:
  assumes st: "thread_step rt dflt t h = Some (t', h')" and inv: "thread_inv rt dflt h0 h' t'"
  shows "thread_rank h0 t' < thread_rank h0 t"
proof (cases "(rt, dflt, t, h)" rule: thread_step.cases)
  case (1 rt dflt r h)
  then obtain rv kvs where t': "t' = TCopyH r rv kvs" using st by (auto simp: Let_def case_prod_beta)
  then obtain ds where "ds @ kvs = map_entries h0 (req_header r)" using inv by auto
  then have "length kvs \<le> length (map_entries h0 (req_header r))" by (metis le_add2 length_append)
  then show ?thesis using 1 t' by simp
next
  case (3 rt dflt r rv h)
  then obtain tv kvs where t': "t' = TCopyT r rv tv kvs" using st by (auto simp: Let_def case_prod_beta)
  then obtain ds where "ds @ kvs = map_entries h0 (req_trailer r)" using inv by auto
  then have "length kvs \<le> length (map_entries h0 (req_trailer r))" by (metis le_add2 length_append)
  then show ?thesis using 3 t' by simp
qed (use st in \<open>auto simp: Let_def case_prod_beta split: sum.splits option.splits prod.splits panic.splits\<close>)

lemma sys_rank_step:
  assumes ok: "init_ok h0 reqs" and r: "reach rt dflt h0 reqs s" and st: "sys_step rt dflt s s'"
  shows "sys_rank h0 s' < sys_rank h0 s"
  using st
proof cases
  case (step i ts h t' h')
  have "sys_inv rt dflt h0 reqs s'" using reach_sys_inv [OF reach.step [OF r st] ok] .
  then have "thread_inv rt dflt h0 h' (ts[i := t'] ! i)" using step by (auto simp: sys_inv_def list_all_length)
  then have "thread_inv rt dflt h0 h' t'" using step by simp
  then have "thread_rank h0 t' < thread_rank h0 (ts ! i)" using thread_rank_step step by blast
  then show ?thesis using step sum_list_update_less by (simp add: sys_rank_def)
qed

lemma reach_rtranclp:
  "(sys_step rt dflt)\<^sup>*\<^sup>* s s' \<Longrightarrow> reach rt dflt h0 reqs s \<Longrightarrow> reach rt dflt h0 reqs s'"
  by (induction rule: rtranclp_induct) (auto intro: reach.step)

lemma reach_thread_steps:
  assumes "reach rt dflt h0 reqs (h, ts)" and "i < length ts" and "thread_steps rt dflt (ts ! i) h t' h'"
  shows "reach rt dflt h0 reqs (h', ts[i := t'])"
  using reach_rtranclp [OF thread_steps_sys [OF assms(3,2)]] assms(1) by simp

lemma example_init_ok [simp]: "init_ok example_heap example_reqs"
  by (simp add: init_ok_def example_reqs_def example_request_def)

lemma example_rt_a [simp]: "rt_a example_rt = Some example_auth"
  by (simp add: example_rt_def wrap_http_transport_def)

lemma example_run:
  assumes a: "rt_a rt = Some example_auth"
  shows "\<exists>h r'. reach rt None example_heap example_reqs
             (h, [TSend example_request r', TFail (example_reqs ! 1) (GoErr ''unknown host'')])"
proof -
  define r1 where "r1 = example_reqs ! 1"
  have R0: "reach rt None example_heap example_reqs (example_heap, [TStart example_request, TStart r1])"
    using reach.init [of rt None example_heap example_reqs] by (simp add: example_reqs_def r1_def)
  obtain r0' h2 where d0: "dup_request example_request example_heap = (r0', h2)" by fastforce
  have D0: "thread_steps rt None (TStart example_request) example_heap (TSign example_request r0') h2"
    using solo_dup_request [of rt None example_request example_heap] d0 by simp
  obtain m where m: "req_header r0' = Some m" and hst: "req_url_host r0' = ''127.0.0.1:9000''"
    using dup_request_fields [of example_request example_heap] d0 by (auto simp: example_request_def)
  obtain h3 where "set_request_auth_via r0' (Some example_auth) None h2 = Inr (None, h3)"
    using set_request_auth_via_ok [of "Some example_auth" None example_auth r0' "''Administrator''" "''password''" m h2] m hst
    by (simp add: resolve_authenticator_def example_auth_def)
  then have "thread_step rt None (TSign example_request r0') h2 = Some (TSend example_request r0', h3)"
    using a by simp
  then have "thread_steps rt None (TStart example_request) example_heap (TSend example_request r0') h3"
    using thread_steps_trans [OF D0 thread_steps.step [OF _ thread_steps.refl]] by blast
  then have R1: "reach rt None example_heap example_reqs (h3, [TSend example_request r0', TStart r1])"
    using reach_thread_steps [OF R0, of 0 "TSend example_request r0'" h3] by simp
  obtain r1' h4 where d1: "dup_request r1 h3 = (r1', h4)" by fastforce
  have D1: "thread_steps rt None (TStart r1) h3 (TSign r1 r1') h4"
    using solo_dup_request [of rt None r1 h3] d1 by simp
  have hst1: "req_url_host r1' = ''10.0.0.1:8091''"
    using dup_request_fields [of r1 h3] d1 by (simp add: r1_def example_reqs_def)
  have "set_request_auth_via r1' (Some example_auth) None h4 = Inr (Some (GoErr ''unknown host''), h4)"
    using set_request_auth_via_error [of "Some example_auth" None example_auth r1'] hst1
    by (simp add: resolve_authenticator_def example_auth_def)
  then have "thread_step rt None (TSign r1 r1') h4 = Some (TFail r1 (GoErr ''unknown host''), h4)"
    using a by simp
  then have "thread_steps rt None (TStart r1) h3 (TFail r1 (GoErr ''unknown host'')) h4"
    using thread_steps_trans [OF D1 thread_steps.step [OF _ thread_steps.refl]] by blast
  then have "reach rt None example_heap example_reqs (h4, [TSend example_request r0', TFail r1 (GoErr ''unknown host'')])"
    using reach_thread_steps [OF R1, of 1 "TFail r1 (GoErr ''unknown host'')" h4] by simp
  then show ?thesis unfolding r1_def by blast
qed

lemma record_views_eq:
  "q'\<lparr>req_header := a, req_trailer := b\<rparr> = q \<Longrightarrow>
   q'\<lparr>req_header := None, req_trailer := None\<rparr> = q\<lparr>req_header := None, req_trailer := None\<rparr>"
  by auto

text \<open>
  C26: However the goroutines calling \<open>RoundTrip\<close> interleave, every object that existed
  when they started (in particular every header and trailer map of the callers, shared
  template maps included) is unchanged in every reachable state, and no two calls ever
  own the same copy map.
\<close>

theorem interleaved_callers_unchanged:
  assumes ok: "init_ok h0 reqs" and r: "reach rt dflt h0 reqs (h, ts)"
  shows "agree_below (h_next h0) h0 h \<and>
         map (\<lambda>q. (header_view h (req_header q), header_view h (req_trailer q))) reqs =
         map (\<lambda>q. (header_view h0 (req_header q), header_view h0 (req_trailer q))) reqs \<and>
         distinct (concat (map dup_maps ts))"
proof -
  have inv: "sys_inv rt dflt h0 reqs (h, ts)" using reach_sys_inv [OF r ok] .
  then have ag: "agree_below (h_next h0) h0 h" by (simp add: sys_inv_def)
  have wf0: "heap_wf h0" using ok by (simp add: init_ok_def)
  have "\<And>m. map_ok h0 m \<Longrightarrow> header_view h m = header_view h0 m"
    using view_frame [OF footprint_lt [OF wf0] ag] by blast
  then have "\<forall>q\<in>set reqs. header_view h (req_header q) = header_view h0 (req_header q) \<and>
                           header_view h (req_trailer q) = header_view h0 (req_trailer q)"
    using ok by (simp add: init_ok_def list_all_iff)
  then show ?thesis using ag inv by (simp add: sys_inv_def)
qed

theorem interleaved_callers_unchanged_witness:
  "\<exists>h r'. reach example_rt None example_heap example_reqs
            (h, [TSend example_request r', TFail (example_reqs ! 1) (GoErr ''unknown host'')]) \<and>
          agree_below 2 example_heap h \<and> header_view h (Some 0) = header_view example_heap (Some 0) \<and>
          the (req_header r') \<noteq> the (req_trailer r')"
proof -
  obtain h r' where R: "reach example_rt None example_heap example_reqs
      (h, [TSend example_request r', TFail (example_reqs ! 1) (GoErr ''unknown host'')])"
    using example_run [OF example_rt_a] by blast
  have "agree_below 2 example_heap h \<and> header_view h (Some 0) = header_view example_heap (Some 0) \<and>
        the (req_header r') \<noteq> the (req_trailer r')"
    using interleaved_callers_unchanged [OF example_init_ok R] by (simp add: example_reqs_def example_request_def)
  then show ?thesis using R by blast
qed

text \<open>
  C27: A goroutine that has signed its copy (and is about to call the wrapped transport)
  holds a copy of its own caller's request whose header reads as the caller's header plus
  exactly its own \<open>Authorization\<close> entry, built from the credentials the authenticator
  returns for its own host, and whose trailer reads as the caller's: concurrent calls on a
  shared template never see each other's credentials.
\<close>

theorem interleaved_own_credentials:
  assumes ok: "init_ok h0 reqs" and r: "reach rt dflt h0 reqs (h, ts)"
    and i: "i < length ts" and t: "ts ! i = TSend q q'"
  shows "q = reqs ! i \<and> q'\<lparr>req_header := req_header q, req_trailer := req_trailer q\<rparr> = q \<and>
         (\<exists>f u p. resolve_authenticator (rt_a rt) dflt = Some f \<and> f (req_url_host q) = Inr (u, p) \<and>
            header_view h (req_header q') = (header_view h0 (req_header q))(''Authorization'' \<mapsto> [auth_value u p]) \<and>
            header_view h (req_trailer q') = header_view h0 (req_trailer q))"
proof -
  have inv: "sys_inv rt dflt h0 reqs (h, ts)" using reach_sys_inv [OF r ok] .
  then have "list_all (thread_inv rt dflt h0 h) ts" by (simp add: sys_inv_def)
  then have "thread_inv rt dflt h0 h (ts ! i)" using i by (simp add: list_all_length)
  then have "thread_inv rt dflt h0 h (TSend q q')" using t by simp
  moreover have "q = reqs ! i" using inv i t by (auto simp: sys_inv_def)
  ultimately show ?thesis by auto
qed

theorem interleaved_own_credentials_witness:
  "\<exists>h r'. reach example_rt None example_heap example_reqs
            (h, [TSend example_request r', TFail (example_reqs ! 1) (GoErr ''unknown host'')]) \<and>
          r'\<lparr>req_header := Some 0, req_trailer := None\<rparr> = example_request \<and>
          header_view h (req_header r') =
            (header_view example_heap (Some 0))(''Authorization'' \<mapsto> [auth_value ''Administrator'' ''password'']) \<and>
          header_view h (req_trailer r') = header_view example_heap None"
proof -
  obtain h r' where R: "reach example_rt None example_heap example_reqs
      (h, [TSend example_request r', TFail (example_reqs ! 1) (GoErr ''unknown host'')])"
    using example_run [OF example_rt_a] by blast
  have "r'\<lparr>req_header := Some 0, req_trailer := None\<rparr> = example_request \<and>
        header_view h (req_header r') =
          (header_view example_heap (Some 0))(''Authorization'' \<mapsto> [auth_value ''Administrator'' ''password'']) \<and>
        header_view h (req_trailer r') = header_view example_heap None"
    using interleaved_own_credentials [OF example_init_ok R, of 0 example_request r']
    by (simp add: example_reqs_def example_request_def example_rt_def wrap_http_transport_def
                  resolve_authenticator_def example_auth_def)
  then show ?thesis using R by blast
qed

text \<open>
  C29: From every reachable state, whatever has been interleaved so far, the remaining
  steps can complete every call: a state is reachable in which every goroutine has either
  called the wrapped transport or returned the signing error (no deadlock, no stuck
  thread).
\<close>

theorem interleaved_completes:
  assumes ok: "init_ok h0 reqs"
  shows "reach rt dflt h0 reqs s \<Longrightarrow> \<exists>s'. (sys_step rt dflt)\<^sup>*\<^sup>* s s' \<and> list_all finished (snd s')"
proof (induction "sys_rank h0 s" arbitrary: s rule: less_induct)
  case less
  obtain h ts where s: "s = (h, ts)" by fastforce
  show ?case
  proof (cases "list_all finished ts")
    case True then show ?thesis using s by (intro exI [of _ s]) simp
  next
    case False
    then obtain i where i: "i < length ts" and nf: "\<not> finished (ts ! i)" by (auto simp: list_all_length)
    have "list_all (thread_inv rt dflt h0 h) ts"
      using reach_sys_inv [OF less.prems ok] s by (simp add: sys_inv_def)
    then have "thread_inv rt dflt h0 h (ts ! i)" using i by (simp add: list_all_length)
    then have "thread_step rt dflt (ts ! i) h \<noteq> None" using thread_step_None nf by blast
    then obtain t' h' where st: "thread_step rt dflt (ts ! i) h = Some (t', h')" by (metis not_None_eq surj_pair)
    have ss: "sys_step rt dflt s (h', ts[i := t'])" unfolding s by (rule sys_step.step [OF i st])
    obtain s' where "(sys_step rt dflt)\<^sup>*\<^sup>* (h', ts[i := t']) s' \<and> list_all finished (snd s')"
      using less.hyps [OF sys_rank_step [OF ok less.prems ss] reach.step [OF less.prems ss]] by blast
    then show ?thesis using ss by (blast intro: converse_rtranclp_into_rtranclp)
  qed
qed

theorem interleaved_completes_witness:
  "\<exists>s'. (sys_step example_rt None)\<^sup>*\<^sup>* (example_heap, map TStart example_reqs) s' \<and> list_all finished (snd s')"
  using interleaved_completes [OF example_init_ok reach.init] .

text \<open>
  C30: Concurrent calls are equivalent to sequential ones: in every reachable state in
  which all calls have returned, each call's result (what its transport observes of the
  request it receives, or the error it returns) is what the call returns when run alone
  on the initial heap, whatever the interleaving.
\<close>

theorem interleaved_equiv_sequential:
  assumes ok: "init_ok h0 reqs" and r: "reach (wrap_http_transport req_view a) dflt h0 reqs (h, ts)"
    and fin: "list_all finished ts"
  shows "map (\<lambda>t. thread_outcome (wrap_http_transport req_view a) t h) ts =
         map (\<lambda>q. Some (round_trip (wrap_http_transport req_view a) dflt q h0)) reqs"
proof -
  let ?rt = "wrap_http_transport req_view a"
  have inv: "sys_inv ?rt dflt h0 reqs (h, ts)" using reach_sys_inv [OF r ok] .
  then have orig: "map orig_req ts = reqs" and all: "list_all (thread_inv ?rt dflt h0 h) ts"
    by (simp_all add: sys_inv_def)
  have wf0: "heap_wf h0" using ok by (simp add: init_ok_def)
  have one: "thread_outcome ?rt t h = Some (round_trip ?rt dflt (orig_req t) h0)"
    if t: "t \<in> set ts" for t
  proof -
    have ti: "thread_inv ?rt dflt h0 h t" and ft: "finished t" using t all fin by (auto simp: list_all_iff)
    have oks: "map_ok h0 (req_header (orig_req t)) \<and> map_ok h0 (req_trailer (orig_req t))"
      using ok t orig by (auto simp: init_ok_def list_all_iff)
    show ?thesis
    proof (cases t)
      case (TSend q q')
      obtain f u p where f: "resolve_authenticator (rt_a ?rt) dflt = Some f" and c: "f (req_url_host q) = Inr (u, p)"
        and rq: "q'\<lparr>req_header := req_header q, req_trailer := req_trailer q\<rparr> = q"
        and vh: "header_view h (req_header q') = (header_view h0 (req_header q))(''Authorization'' \<mapsto> [auth_value u p])"
        and vt: "header_view h (req_trailer q') = header_view h0 (req_trailer q)"
        using ti TSend by auto
      obtain q'' h'' where rt: "round_trip ?rt dflt q h0 = Inr (Inr (rt_slave ?rt q'' h''))"
        and rq'': "q''\<lparr>req_header := req_header q, req_trailer := req_trailer q\<rparr> = q"
        and vh'': "header_view h'' (req_header q'') = (header_view h0 (req_header q))(''Authorization'' \<mapsto> [auth_value u p])"
        and vt'': "header_view h'' (req_trailer q'') = header_view h0 (req_trailer q)"
        using round_trip_effect [OF wf0 _ _ f c] oks TSend by auto
      have "q'\<lparr>req_header := None, req_trailer := None\<rparr> = q''\<lparr>req_header := None, req_trailer := None\<rparr>"
        using record_views_eq [OF rq] record_views_eq [OF rq''] by simp
      then show ?thesis using TSend rt vh vt vh'' vt'' by (simp add: req_view_def wrap_http_transport_def)
    next
      case (TFail q e)
      obtain q1 h1 where d: "dup_request q h0 = (q1, h1)" by fastforce
      have host: "req_url_host q1 = req_url_host q" using dup_request_fields [of q h0] d by simp
      consider (none) "resolve_authenticator (rt_a ?rt) dflt = None" "e = ErrNotInitialized"
        | (err) f e' where "resolve_authenticator (rt_a ?rt) dflt = Some f" "f (req_url_host q) = Inl e'" "e = GoErr e'"
        using ti TFail by auto
      then have "set_request_auth_via q1 (rt_a ?rt) dflt h1 = Inr (Some e, h1)"
      proof cases
        case none then show ?thesis by (simp add: set_request_auth_via_unresolved)
      next
        case err then show ?thesis using set_request_auth_via_error [of _ dflt f q1 e' h1] host by simp
      qed
      then show ?thesis using TFail d round_trip_signing [of ?rt dflt q h0] by simp
    qed (use ft in simp_all)
  qed
  have "map (\<lambda>t. thread_outcome ?rt t h) ts = map (\<lambda>t. Some (round_trip ?rt dflt (orig_req t) h0)) ts"
    using one by simp
  also have "\<dots> = map (\<lambda>q. Some (round_trip ?rt dflt q h0)) reqs"
    using orig [symmetric] by (simp add: comp_def)
  finally show ?thesis .
qed

theorem interleaved_equiv_sequential_witness:
  "\<exists>h r'. reach (wrap_http_transport req_view (Some example_auth)) None example_heap example_reqs
            (h, [TSend example_request r', TFail (example_reqs ! 1) (GoErr ''unknown host'')]) \<and>
          [thread_outcome (wrap_http_transport req_view (Some example_auth)) (TSend example_request r') h,
           thread_outcome (wrap_http_transport req_view (Some example_auth)) (TFail (example_reqs ! 1) (GoErr ''unknown host'')) h] =
          [Some (round_trip (wrap_http_transport req_view (Some example_auth)) None example_request example_heap),
           Some (round_trip (wrap_http_transport req_view (Some example_auth)) None (example_reqs ! 1) example_heap)]"
proof -
  obtain h r' where R: "reach (wrap_http_transport req_view (Some example_auth)) None example_heap example_reqs
      (h, [TSend example_request r', TFail (example_reqs ! 1) (GoErr ''unknown host'')])"
    using example_run [of "wrap_http_transport req_view (Some example_auth)"] by (auto simp: wrap_http_transport_def)
  have "map (\<lambda>t. thread_outcome (wrap_http_transport req_view (Some example_auth)) t h)
          [TSend example_request r', TFail (example_reqs ! 1) (GoErr ''unknown host'')] =
        map (\<lambda>q. Some (round_trip (wrap_http_transport req_view (Some example_auth)) None q example_heap)) example_reqs"
    using interleaved_equiv_sequential [OF example_init_ok R] by simp
  then show ?thesis using R by (auto simp: example_reqs_def)
qed

end
