(* ===== verification/Spec2Isabelle.thy ===== *)
theory Spec2Isabelle
  imports TLSAliasing TLSConfigJSON Interleaving Responders
begin

text \<open>
  \<^bold>\<open>A verification development of cbauth's convenience layer (src/convenience.go).\<close>

  \<^bold>\<open>The program.\<close>  One Go file of the cbauth package holds three independent parts.
  \<^item> The request-signing path: \<open>SetRequestAuthVia\<close> asks an \<open>Authenticator\<close> for the
    credentials of the request's \<open>host:port\<close> and sets the Basic-Auth header;
    \<open>SetRequestAuth\<close> does so with the default authenticator; \<open>dupRequest\<close>,
    \<open>dupHeaders\<close> and \<open>duplicateStringsSlice\<close> copy a request with fresh header and trailer
    maps; \<open>cbauthRoundTripper.RoundTrip\<close> (built by \<open>WrapHTTPTransport\<close>) duplicates,
    signs and forwards each request to the wrapped transport.
  \<^item> The challenge responders \<open>SendUnauthorized\<close>, \<open>ForbiddenJSON\<close>, \<open>SendForbidden\<close>.
  \<^item> The TLS policy resolver: \<open>getTLSConfig\<close> decodes the JSON in the environment variable
    \<open>CBAUTH_TLS_CONFIG\<close>, \<open>CipherSuites\<close> maps its cipher entries to identifiers with the
    \<open>high\<close> and \<open>medium\<close> tables and falls back to the high table, \<open>MinTLSVersion\<close> maps
    the version string to a protocol floor.
  The parts share no state; the resolver is consulted at TLS configuration time, the
  signing path on every outbound request.

  \<^bold>\<open>The theories.\<close>
  \<^item> \<open>Prelude\<close>: Go strings as byte lists, \<open>u16\<close>/\<open>u64\<close> words, the \<open>panic\<close> summand,
    the environment, and the arithmetic, word and map facts shared below.
  \<^item> \<open>GoStrings\<close>: the Go library functions the resolver calls on strings, modelled from
    the Go library's behaviour (not under src/): \<open>strings.TrimSpace\<close> (\<open>trim_space\<close>),
    \<open>strings.EqualFold\<close> (\<open>equal_fold\<close>), \<open>strings.ToLower\<close> (\<open>to_lower\<close>), and
    \<open>strconv.ParseUint\<close> (\<open>parse_uint\<close>) with its 64-bit digit loop, Go's \<open>cutoff\<close>
    and wrap-around checks.  Its lemmas prove the 64-bit loop equal to an unbounded
    reference loop (\<open>parse_uint_eq_ref\<close>), the result bounded by \<open>2^bitSize - 1\<close>
    (\<open>parse_uint_bound\<close>), and the value of a decimal literal (\<open>parse_uint_decimal\<close>).
  \<^item> \<open>GoHeap\<close>: the part of Go's memory the signing path touches.  \<open>http.Header\<close> maps and
    the backing arrays of their \<open>[]string\<close> values live at addresses of a \<open>heap\<close> record;
    a \<open>slice\<close> is a descriptor (array, offset, length, capacity), so slices may alias.
    Operations: allocation, \<open>m[k] = v\<close> (\<open>map_store\<close>, \<open>map_assign\<close>, which panics on a
    nil map), \<open>s[i] = v\<close> (\<open>slice_store\<close>), \<open>append\<close> (\<open>slice_append\<close>, in place when the
    capacity suffices), \<open>Header.Set\<close> with \<open>CanonicalMIMEHeaderKey\<close> (\<open>header_set\<close>).
    \<open>header_view\<close> reads a map as the abstract map from keys to value lists, \<open>footprint\<close>
    is the set of addresses it reaches, \<open>heap_wf\<close> the heap invariant, \<open>agree_below n\<close>
    the frame relation (every object below address \<open>n\<close> unchanged).  Its lemmas show that
    every operation keeps \<open>heap_wf\<close>, what it does to the views, and which objects it leaves
    unchanged (\<open>header_set_effect\<close>, \<open>slice_append_effect\<close>, \<open>view_frame\<close>).
  \<^item> \<open>Base64\<close>: \<open>net/http\<close>'s Basic-Auth framing (\<open>basicAuth\<close>, the standard base64
    encoder) and, as the reading side, \<open>parseBasicAuth\<close> with a base64 decoder; library
    code modelled from its behaviour.  \<open>base64_roundtrip\<close> proves decoding inverts encoding.
  \<^item> \<open>Signer\<close>: lines 32 to 48.  \<open>request\<close> is the part of \<open>http.Request\<close> the code reads
    or copies; an authenticator is \<open>GetHTTPServiceAuth\<close> as a function; the process-wide
    \<open>Default\<close> is an explicit argument \<open>dflt\<close>, and \<open>WithAuthenticator\<close> (not under src/)
    is modelled from its contract (\<open>with_authenticator\<close>, \<open>resolve_authenticator\<close>).
    \<open>sign_body\<close> is the closure of \<open>SetRequestAuthVia\<close>, \<open>set_basic_auth\<close> is
    \<open>Request.SetBasicAuth\<close>.  A call returns the error (\<open>None\<close> for nil) and the heap, or a
    \<open>Panic\<close>.  Claims C6, C21, C22.
  \<^item> \<open>Transport\<close>: lines 50 to 90.  \<open>duplicate_strings_slice\<close>, \<open>dup_headers_loop\<close> and
    \<open>dup_headers\<close>, \<open>dup_request\<close>, the \<open>round_tripper\<close> record, \<open>wrap_http_transport\<close>
    and \<open>round_trip\<close>; the wrapped transport is a parameter, a function of the request it
    receives and of the heap at the time of the call.  The lemmas \<open>dup_headers_effect\<close>,
    \<open>dup_request_effect\<close> and \<open>round_trip_effect\<close> give the full effect of each step;
    the claims C1 to C5, C19 and C20 show that \<open>RoundTrip\<close> leaves every object of the
    caller unchanged and shares no storage with the copy it signs, that the transport
    receives the caller's request plus exactly the \<open>Authorization\<close> header, that writes
    through a duplicated header map never reach the source, that a signing error is
    returned without calling the transport, and that \<open>RoundTrip\<close> never panics.
  \<^item> \<open>Interleaving\<close>: the concurrency contract of spec section 5, lines 54 to 80 as
    atomic steps.  A goroutine calling \<open>RoundTrip\<close> is a thread whose state
    (\<open>tstate\<close>) is its program point, with \<open>dupRequest\<close> and \<open>dupHeaders\<close> inlined;
    \<open>thread_step\<close> performs one statement on the shared heap (a \<open>make\<close>, one iteration of
    the \<open>dupHeaders\<close> loop, the \<open>SetRequestAuthVia\<close> call), \<open>sys_step\<close> lets any
    thread step, \<open>reach\<close> collects the states of every interleaving from callers'
    requests that may share template maps.  The invariant \<open>sys_inv\<close> (callers' objects
    unchanged, each copy map owned by one thread and reading as the part copied so far) is
    preserved by every step (\<open>sys_step_inv\<close>) and holds on every reachable state by rule
    induction (\<open>reach_sys_inv\<close>).  Claims C26, C27, C29 and C30: callers' maps unchanged,
    each signed copy carries its own caller's header plus its own credentials, every
    state able to complete all calls (\<open>sys_rank\<close>, the entries left to copy plus the
    remaining fixed steps, drops on each step), and every complete interleaving giving
    each call the result it has when run alone (what the transport observes,
    \<open>req_view\<close>, or the error).  No call ever panics: a panicked call could never
    return, which C29 excludes.
  \<^item> \<open>TLSAliasing\<close>: lines 120 to 170 with the package variable \<open>ciphersHigh\<close> as state
    (\<open>tls_globals\<close>).  \<open>cipher_suites_st\<close> returns a \<open>cipher_slice\<close>, a fresh array or
    the table itself, and reads the current table for \<open>"high"\<close> entries;
    \<open>cipher_slice_store\<close> is a caller's \<open>s[i] = v\<close> on the result.  With the initial table
    it returns what \<open>TLSPolicy\<close> says (\<open>cipher_suites_st_refines\<close>); claim C28 proves the
    aliasing: with no usable entry, a write through the result changes the table and every
    later result, while a non-empty result is private (\<open>cipher_suites_fresh_private\<close>).
  \<^item> \<open>Responders\<close>: lines 92 to 118.  \<open>send_unauthorized\<close>, \<open>forbidden_json\<close>,
    \<open>send_forbidden\<close> on a \<open>response_writer\<close> record abstracting \<open>net/http\<close>'s server
    response (header map, status fixed by the first \<open>WriteHeader\<close>, header as sent, body),
    with \<open>http.Error\<close> (\<open>http_error\<close>) and \<open>json.Marshal\<close> (\<open>json_encode\<close>, Go's string
    escaping \<open>json_escape\<close> with its UTF-8 reading \<open>utf8_len\<close>) modelled from the Go
    library.  A JSON string reader \<open>json_unescape\<close> is the reading side:
    \<open>json_escape_roundtrip\<close> proves it inverts Go's escaping on valid UTF-8.  Claims C23 to
    C25: the 401 challenge and the 403 response as sent, and the permission read back
    from any body; \<open>send_forbidden_never_errors\<close> shows the error branch unreachable.
  \<^item> \<open>TLSPolicy\<close>: lines 120 to 185.  \<open>ciphers_high\<close>, \<open>ciphers_medium\<close>,
    \<open>tls_config\<close>, \<open>get_tls_config\<close> (\<open>getTLSConfig\<close>; the JSON decoder is a parameter,
    its error a \<open>Panic\<close>), \<open>cipher_step\<close>/\<open>cipher_loop\<close>/\<open>cipher_suites_of\<close>/\<open>cipher_suites\<close>
    (\<open>CipherSuites\<close>), \<open>min_tls_version_of\<close>/\<open>min_tls_version\<close> (\<open>MinTLSVersion\<close>).  The
    abstract resolver \<open>resolve_ciphers_spec\<close> states section 4.5 of the spec with the
    unbounded parser; the claims C7 to C15 and C17 show the result never empty, the loop
    a refinement of the abstract resolver, the exact 16-bit conversion of decimal and of
    leading-zero (octal) entries, the version floors, and the blank configuration path.
  \<^item> \<open>JSONScan\<close>, \<open>GoJSON\<close>, \<open>TLSConfigJSON\<close>: \<open>json.Unmarshal\<close>, the decoder
    \<open>getTLSConfig\<close> (line 142) runs on the struct \<open>tlsConfig\<close> (lines 133 to 136), modelled
    from the Go library's behaviour.  \<open>JSONScan\<close> holds the lexical level: \<open>scan_string\<close>
    (string literals checked as the scanner checks them and decoded as \<open>unquote\<close> decodes
    them) and \<open>scan_number\<close>; \<open>scan_string_quote\<close> proves it reads back what
    \<open>json_escape\<close> writes.  \<open>GoJSON\<close> holds \<open>parse_at\<close>, the scanner as a recursive
    descent parser to the value tree \<open>jvalue\<close> with the nesting limit 10000, and
    \<open>check_valid\<close> (\<open>checkValid\<close>); \<open>parse_at_consumes\<close> shows every parse consumes
    input, \<open>parse_json_encode\<close> that parsing what \<open>json_encode\<close> writes gives back the
    value.  \<open>TLSConfigJSON\<close> holds the decoder proper: \<open>fold_name\<close> and \<open>field_of\<close> (Go's
    case-insensitive field match), \<open>decode_into\<close> on the state \<open>dstate\<close> (the string, the
    slice's length and backing array, the first type error), \<open>d_view\<close> (the struct the
    state stands for), and \<open>go_unmarshal\<close>, the decoder passed to \<open>get_tls_config\<close>.
    \<open>decode_into_wf\<close> proves the slice invariant \<open>len <= cap\<close> (\<open>dstate_wf\<close>) kept by
    every decoding step, and \<open>cipher_loop_strings\<close> the exact backing array after the
    element loop.  Claims C16 and C18: \<open>getTLSConfig\<close> reads a configuration back
    unchanged from its JSON, and every non-blank text that is not one JSON value makes
    both resolvers panic with a \<open>SyntaxError\<close>.

  \<^bold>\<open>Bounds.\<close>  No fuel is used: every loop of the code runs over a finite list (the
  cipher entries, the entries of a header map, the elements of a slice) and is modelled
  by structural recursion; the interleavings are finite by a rank (entries left to copy
  plus the remaining fixed steps), not by a cut-off.  The JSON parser \<open>parse_at\<close> is
  total by the measure \<open>2 * length s\<close> plus the rank of its mode, and its depth bound is
  Go's \<open>maxNestingDepth\<close> of 10000, the limit the scanner itself enforces.  Words are kept at the source's widths: the accumulator of
  \<open>ParseUint\<close> is a \<open>64 word\<close> with Go's overflow checks written out, the cipher
  identifiers are \<open>16 word\<close>s.  Heap addresses are unbounded naturals (Go's allocator
  never reuses a live address).

  \<^bold>\<open>Not modelled.\<close>  Of \<open>json.Unmarshal\<close>, only what decoding into \<open>tlsConfig\<close> uses:
  other Go types, \<open>Unmarshaler\<close> and \<open>TextUnmarshaler\<close> hooks, struct tags and embedded
  fields play no part; numbers are only checked, since a number in the document is a type
  error for both fields; the scanner's messages and byte offsets are not modelled (every
  scanner error is the one \<open>SyntaxError\<close>, the type errors keep the JSON kind).  The
  network transport and the authenticator are parameters of
  the signing path; in the interleaving model the callers do not write their maps while
  their calls are in flight (such a write is a data race in Go, see the findings); Go's map iteration order is the order of the association list (the
  results proved do not depend on it); the rune-level Unicode case folding of
  \<open>EqualFold\<close> and \<open>ToLower\<close> is modelled for ASCII, which decides every comparison the
  code makes (see \<open>GoStrings\<close>); \<open>json.Marshal\<close> is modelled only for the strings,
  arrays and string-keyed maps \<open>ForbiddenJSON\<close> builds, and the response writer only for
  what a handler observes (no connection, chunking or content sniffing).

  \<^bold>\<open>Plan.\<close>  \<open>MinTLSVersion\<close> and the responders read no package state and need no
  stateful version; every line of src/ but the package clause and imports is mapped, so the
  remaining work is to strengthen the claims, not to cover more code.
\<close>

end
